(* ===== verification/Go_Prelude.thy ===== *)
theory Go_Prelude
  imports Complex_Main "HOL-Library.Word" "HOL-Library.Signed_Division" "HOL-Library.AList"
    "HOL-Library.Multiset" "HOL-Library.Monad_Syntax"
begin

text \<open>
  The part of Go and of its standard library that the program rests on: 64-bit and 32-bit
  signed integers with wrap-around, truncating division, run-time panics, binary search
  (\<^verbatim>\<open>sort.Search\<close>), IEEE doubles as far as the code looks at them, decimal printing,
  prefixes of strings and maps with an unspecified iteration order.
  A run-time panic is the value \<open>None\<close> of an \<open>option\<close>; an error result of the program
  is the left side of a sum.
\<close>

section \<open>Collections of facts\<close>

named_theorems go_arith \<open>facts on fixed-width integers\<close>
named_theorems model_defs \<open>definitions a witness unfolds\<close>

section \<open>Signed machine integers\<close>

definition wrap_int :: "nat \<Rightarrow> int \<Rightarrow> int" where
  "wrap_int n x = (x + 2 ^ (n - 1)) mod 2 ^ n - 2 ^ (n - 1)"

abbreviation wrap64 :: "int \<Rightarrow> int" where
  "wrap64 \<equiv> wrap_int 64"

abbreviation wrap32 :: "int \<Rightarrow> int" where
  "wrap32 \<equiv> wrap_int 32"

abbreviation maxInt64 :: int where
  "maxInt64 \<equiv> 9223372036854775807"

abbreviation minInt64 :: int where
  "minInt64 \<equiv> - 9223372036854775808"

definition in_int64 :: "int \<Rightarrow> bool" where
  "in_int64 x \<longleftrightarrow> minInt64 \<le> x \<and> x \<le> maxInt64"

lemma wrap64_eq: "wrap64 x = (x + 9223372036854775808) mod 18446744073709551616 - 9223372036854775808"
  by (simp add: wrap_int_def)

lemma wrap32_eq: "wrap32 x = (x + 2147483648) mod 4294967296 - 2147483648"
  by (simp add: wrap_int_def)

lemma wrap64_id [go_arith]: "minInt64 \<le> x \<Longrightarrow> x \<le> maxInt64 \<Longrightarrow> wrap64 x = x"
  by (simp add: wrap64_eq)

lemma wrap32_id [go_arith]: "- 2147483648 \<le> x \<Longrightarrow> x \<le> 2147483647 \<Longrightarrow> wrap32 x = x"
  by (simp add: wrap32_eq)

lemma wrap64_range [go_arith]: "minInt64 \<le> wrap64 x" "wrap64 x \<le> maxInt64"
  using pos_mod_bound [of 18446744073709551616 "x + 9223372036854775808"]
    pos_mod_sign [of 18446744073709551616 "x + 9223372036854775808"]
  by (simp_all add: wrap64_eq)

lemma in_int64_wrap64 [simp]: "in_int64 (wrap64 x)"
  using wrap64_range [of x] by (simp add: in_int64_def)

lemma wrap64_in_int64 [simp]: "in_int64 x \<Longrightarrow> wrap64 x = x"
  by (simp add: in_int64_def wrap64_id)

text \<open>The written-out wrap-around is the two's complement reading of a 64-bit word.\<close>

lemma wrap64_word: "wrap64 x = sint (word_of_int x :: 64 word)"
proof -
  have "sint (word_of_int x :: 64 word) = signed_take_bit 63 x"
    by (simp add: signed_of_int)
  also have "\<dots> = wrap64 x"
    by (simp add: signed_take_bit_eq_take_bit_shift take_bit_eq_mod wrap64_eq)
  finally show ?thesis by simp
qed

lemma wrap32_word: "wrap32 x = sint (word_of_int x :: 32 word)"
proof -
  have "sint (word_of_int x :: 32 word) = signed_take_bit 31 x"
    by (simp add: signed_of_int)
  also have "\<dots> = wrap32 x"
    by (simp add: signed_take_bit_eq_take_bit_shift take_bit_eq_mod wrap32_eq)
  finally show ?thesis by simp
qed

text \<open>
  Integer division and remainder: truncating, and a panic for a zero divisor.
\<close>

definition go_div :: "int \<Rightarrow> int \<Rightarrow> int option" where
  "go_div a b = (if b = 0 then None else Some (wrap64 (a sdiv b)))"

definition go_rem :: "int \<Rightarrow> int \<Rightarrow> int option" where
  "go_rem a b = (if b = 0 then None else Some (a smod b))"

lemma go_div_pos:
  assumes "0 \<le> a" "0 < b" "a \<le> maxInt64"
  shows "go_div a b = Some (a div b)"
proof -
  have "a sdiv b = a div b"
    using assms by (simp add: signed_divide_int_def sgn_if)
  moreover have "0 \<le> a div b" "a div b \<le> a"
    using assms by (auto simp: pos_imp_zdiv_nonneg_iff intro: int_div_less_self
        order_trans [OF zdiv_mono2 [of a 1 b]])
  ultimately show ?thesis
    using assms by (simp add: go_div_def wrap64_id)
qed

lemma go_rem_pos: "0 \<le> a \<Longrightarrow> 0 < b \<Longrightarrow> go_rem a b = Some (a mod b)"
  by (simp add: go_rem_def signed_modulo_int_def signed_divide_int_def sgn_if minus_div_mult_eq_mod)

section \<open>sort.Search\<close>

text \<open>
  The binary search of the standard library, with its two indices: it returns the least
  index at which a monotone predicate holds, or the length.
\<close>

function search_loop :: "(nat \<Rightarrow> bool) \<Rightarrow> nat \<Rightarrow> nat \<Rightarrow> nat" where
  "search_loop f i j =
     (if i < j
      then let h = (i + j) div 2 in if \<not> f h then search_loop f (h + 1) j else search_loop f i h
      else i)"
  by pat_completeness auto
termination
  by (relation "measure (\<lambda>(f, i, j). j - i)") auto

declare search_loop.simps [simp del]

definition sort_search :: "nat \<Rightarrow> (nat \<Rightarrow> bool) \<Rightarrow> nat" where
  "sort_search n f = search_loop f 0 n"

lemma search_loop_least:
  assumes "i \<le> j" and "j \<le> n"
    and "\<And>k. k < i \<Longrightarrow> \<not> f k"
    and "\<And>k. j \<le> k \<Longrightarrow> k < n \<Longrightarrow> f k"
    and mono: "\<And>a b. a \<le> b \<Longrightarrow> b < n \<Longrightarrow> f a \<Longrightarrow> f b"
  shows "search_loop f i j \<le> j \<and> (\<forall>k < search_loop f i j. \<not> f k)
    \<and> (\<forall>k. search_loop f i j \<le> k \<longrightarrow> k < n \<longrightarrow> f k)"
  using assms(1-4)
proof (induction "j - i" arbitrary: i j rule: less_induct)
  case less
  show ?case
  proof (cases "i < j")
    case False
    with less.prems(1) have "i = j" by simp
    then have "search_loop f i j = j" by (simp add: search_loop.simps [of f j j])
    with \<open>i = j\<close> less.prems show ?thesis by simp
  next
    case True
    define h where "h = (i + j) div 2"
    have h: "i \<le> h" "h < j" "h < n" using True less.prems(2) by (auto simp: h_def)
    show ?thesis
    proof (cases "f h")
      case False
      have lo: "\<not> f k" if "k < h + 1" for k
        using mono [of k h] that False h(3) by auto
      have "search_loop f (h + 1) j \<le> j \<and> (\<forall>k < search_loop f (h + 1) j. \<not> f k)
        \<and> (\<forall>k. search_loop f (h + 1) j \<le> k \<longrightarrow> k < n \<longrightarrow> f k)"
        by (rule less.hyps) (use h less.prems(2,4) lo in auto)
      then show ?thesis
        using True False by (simp add: search_loop.simps [of f i j] h_def Let_def)
    next
      case fh: True
      have hi: "f k" if "h \<le> k" "k < n" for k
        using mono [of h k] that fh by simp
      have "search_loop f i h \<le> h \<and> (\<forall>k < search_loop f i h. \<not> f k)
        \<and> (\<forall>k. search_loop f i h \<le> k \<longrightarrow> k < n \<longrightarrow> f k)"
        by (rule less.hyps) (use h less.prems(3) hi in auto)
      moreover have "search_loop f i j = search_loop f i h"
        using True fh by (simp add: search_loop.simps [of f i j] h_def Let_def)
      ultimately show ?thesis using h by simp
    qed
  qed
qed

lemma sort_search_takeWhile:
  assumes "sorted_wrt (\<lambda>x y. p x \<longrightarrow> p y) xs"
  shows "sort_search (length xs) (\<lambda>i. p (xs ! i)) = length (takeWhile (\<lambda>x. \<not> p x) xs)"
proof -
  let ?f = "\<lambda>i. p (xs ! i)" and ?n = "length xs"
  let ?r = "sort_search ?n ?f" and ?t = "length (takeWhile (\<lambda>x. \<not> p x) xs)"
  have mono: "?f b" if "a \<le> b" "b < ?n" "?f a" for a b
  proof (cases "a = b")
    case False
    with that have "?f a \<longrightarrow> ?f b" using sorted_wrt_nth_less [OF assms, of a b] by simp
    with that show ?thesis by simp
  qed (use that in simp)
  have "?r \<le> ?n \<and> (\<forall>k < ?r. \<not> ?f k) \<and> (\<forall>k. ?r \<le> k \<longrightarrow> k < ?n \<longrightarrow> ?f k)"
    unfolding sort_search_def by (rule search_loop_least) (use mono in auto)
  then have r: "?r \<le> ?n" "\<forall>k < ?r. \<not> ?f k" "\<forall>k. ?r \<le> k \<longrightarrow> k < ?n \<longrightarrow> ?f k"
    by blast+
  have t1: "?t \<le> ?n" by (rule length_takeWhile_le)
  have t2: "\<not> ?f k" if "k < ?t" for k
  proof -
    have "\<not> p (takeWhile (\<lambda>x. \<not> p x) xs ! k)"
      using set_takeWhileD [OF nth_mem [OF that]] by blast
    then show ?thesis unfolding takeWhile_nth [OF that] .
  qed
  have t3: "?f ?t" if "?t < ?n" using nth_length_takeWhile [OF that] by blast
  show ?thesis
  proof (rule antisym)
    show "?r \<le> ?t"
    proof (rule ccontr)
      assume "\<not> ?r \<le> ?t"
      then have lt: "?t < ?r" by (simp only: not_le)
      with r(2) have "\<not> ?f ?t" by blast
      moreover have "?t < ?n" using lt r(1) by (rule less_le_trans)
      ultimately show False using t3 by blast
    qed
    show "?t \<le> ?r"
    proof (rule ccontr)
      assume "\<not> ?t \<le> ?r"
      then have lt: "?r < ?t" by (simp only: not_le)
      then have "\<not> ?f ?r" by (rule t2)
      moreover have "?r < ?n" using lt t1 by (rule less_le_trans)
      ultimately show False using r(3) by blast
    qed
  qed
qed

section \<open>IEEE doubles\<close>

text \<open>
  A double as the code sees it: a finite value (a rational number), an infinity or NaN.
  The program compares doubles, converts integers to doubles, takes the ceiling and
  converts back; every other arithmetic on doubles happens inside the expression engine.
\<close>

datatype f64 = Fin rat | PInf | NInf | NaN

fun f64_is_nan :: "f64 \<Rightarrow> bool" where
  "f64_is_nan NaN = True"
| "f64_is_nan _ = False"

fun f64_is_inf :: "f64 \<Rightarrow> bool" where
  "f64_is_inf PInf = True"
| "f64_is_inf NInf = True"
| "f64_is_inf _ = False"

definition f64_finite :: "f64 \<Rightarrow> bool" where
  "f64_finite v \<longleftrightarrow> \<not> f64_is_nan v \<and> \<not> f64_is_inf v"

fun f64_less :: "f64 \<Rightarrow> f64 \<Rightarrow> bool" where
  "f64_less NaN _ = False"
| "f64_less _ NaN = False"
| "f64_less (Fin a) (Fin b) = (a < b)"
| "f64_less NInf NInf = False"
| "f64_less NInf _ = True"
| "f64_less _ NInf = False"
| "f64_less PInf _ = False"
| "f64_less _ PInf = True"

lemma f64_less_irrefl [simp]: "\<not> f64_less x x"
  by (cases x) auto

lemma f64_less_asym: "f64_less x y \<Longrightarrow> \<not> f64_less y x"
  by (cases x; cases y) auto

lemma f64_finite_iff: "f64_finite v \<longleftrightarrow> (\<exists>r. v = Fin r)"
  by (cases v) (auto simp: f64_finite_def)

text \<open>
  \<^verbatim>\<open>float64(n)\<close> of an \<^verbatim>\<open>int64\<close>: exact up to 53 significant bits, otherwise rounded to the
  nearest 53-bit mantissa, ties to even.
\<close>

fun excess_bits :: "nat \<Rightarrow> nat" where
  "excess_bits m = (if m < 2 ^ 53 then 0 else Suc (excess_bits (m div 2)))"

declare excess_bits.simps [simp del]

definition round_mantissa :: "nat \<Rightarrow> nat" where
  "round_mantissa m =
     (let e = excess_bits m; q = m div 2 ^ e; r = m mod 2 ^ e; h = 2 ^ e div 2 in
      (if e \<noteq> 0 \<and> (h < r \<or> (r = h \<and> odd q)) then q + 1 else q) * 2 ^ e)"

definition int_to_f64 :: "int \<Rightarrow> f64" where
  "int_to_f64 n = Fin (of_int (sgn n * int (round_mantissa (nat \<bar>n\<bar>))))"

lemma int_to_f64_exact: "\<bar>n\<bar> < 2 ^ 53 \<Longrightarrow> int_to_f64 n = Fin (of_int n)"
proof -
  assume "\<bar>n\<bar> < 2 ^ 53"
  then have "nat \<bar>n\<bar> < 2 ^ 53" by (simp add: nat_less_iff)
  then have "excess_bits (nat \<bar>n\<bar>) = 0" by (simp add: excess_bits.simps [of "nat \<bar>n\<bar>"])
  then show ?thesis by (simp add: int_to_f64_def round_mantissa_def Let_def sgn_mult_abs)
qed

fun f64_ceil :: "f64 \<Rightarrow> f64" where
  "f64_ceil (Fin r) = Fin (of_int \<lceil>r\<rceil>)"
| "f64_ceil v = v"

text \<open>
  \<^verbatim>\<open>int(v)\<close>: truncation towards zero where the result fits 64 bits; otherwise (and for
  infinities and NaN) the value depends on the platform, here the argument \<open>oob\<close>.
\<close>

fun f64_to_int :: "(f64 \<Rightarrow> int) \<Rightarrow> f64 \<Rightarrow> int" where
  "f64_to_int oob (Fin r) =
     (let n = (if 0 \<le> r then \<lfloor>r\<rfloor> else \<lceil>r\<rceil>) in if in_int64 n then n else wrap64 (oob (Fin r)))"
| "f64_to_int oob v = wrap64 (oob v)"

section \<open>Strings\<close>

definition has_prefix :: "string \<Rightarrow> string \<Rightarrow> bool" where
  "has_prefix s p \<longleftrightarrow> take (length p) s = p"

definition trim_prefix :: "string \<Rightarrow> string \<Rightarrow> string" where
  "trim_prefix s p = (if has_prefix s p then drop (length p) s else s)"

lemma has_prefix_append [simp]: "has_prefix (p @ s) p"
  by (simp add: has_prefix_def)

lemma trim_prefix_append [simp]: "trim_prefix (p @ s) p = s"
  by (simp add: trim_prefix_def)

lemma has_prefixD: "has_prefix s p \<Longrightarrow> s = p @ trim_prefix s p"
  by (metis append_take_drop_id has_prefix_def trim_prefix_def)

definition is_space :: "char \<Rightarrow> bool" where
  "is_space c \<longleftrightarrow> c \<in> {CHR 0x09, CHR 0x0A, CHR 0x0B, CHR 0x0C, CHR 0x0D, CHR 0x20}"

text \<open>\<^verbatim>\<open>strings.TrimSpace\<close> on ASCII text.\<close>

definition trim_space :: "string \<Rightarrow> string" where
  "trim_space s = rev (dropWhile is_space (rev (dropWhile is_space s)))"

lemma trim_space_empty_iff: "trim_space s = [] \<longleftrightarrow> (\<forall>c \<in> set s. is_space c)"
proof
  assume "trim_space s = []"
  then have all: "\<forall>c \<in> set (dropWhile is_space s). is_space c"
    by (simp add: trim_space_def)
  have "dropWhile is_space s = []"
  proof (rule ccontr)
    assume ne: "dropWhile is_space s \<noteq> []"
    then have "\<not> is_space (hd (dropWhile is_space s))" by (rule hd_dropWhile)
    with all ne show False by simp
  qed
  then show "\<forall>c \<in> set s. is_space c" unfolding dropWhile_eq_Nil_conv .
next
  assume "\<forall>c \<in> set s. is_space c"
  then have "dropWhile is_space s = []" unfolding dropWhile_eq_Nil_conv .
  then show "trim_space s = []" by (simp only: trim_space_def rev.simps dropWhile.simps)
qed

definition is_digit :: "char \<Rightarrow> bool" where
  "is_digit c \<longleftrightarrow> 48 \<le> (of_char c :: nat) \<and> (of_char c :: nat) \<le> 57"

definition digit_val :: "char \<Rightarrow> int" where
  "digit_val c = int (of_char c) - 48"

definition digit_char :: "nat \<Rightarrow> char" where
  "digit_char d = char_of (48 + d)"

text \<open>Decimal printing (\<^verbatim>\<open>%d\<close> and \<^verbatim>\<open>strconv.FormatInt(n, 10)\<close>).\<close>

fun show_nat :: "nat \<Rightarrow> string" where
  "show_nat n = (if n < 10 then [digit_char n] else show_nat (n div 10) @ [digit_char (n mod 10)])"

declare show_nat.simps [simp del]

definition show_int :: "int \<Rightarrow> string" where
  "show_int n = (if n < 0 then CHR ''-'' # show_nat (nat (- n)) else show_nat (nat n))"

definition digits_val :: "string \<Rightarrow> int" where
  "digits_val s = foldl (\<lambda>a c. 10 * a + digit_val c) 0 s"

lemma digits_val_snoc [simp]: "digits_val (s @ [c]) = 10 * digits_val s + digit_val c"
  by (simp add: digits_val_def)

lemma digit_val_char: "d < 10 \<Longrightarrow> digit_val (digit_char d) = int d"
  by (simp add: digit_val_def digit_char_def)

lemma show_nat_inverse: "digits_val (show_nat n) = int n"
proof (induction n rule: show_nat.induct)
  case (1 n)
  show ?case
  proof (cases "n < 10")
    case True
    then show ?thesis
      by (simp add: show_nat.simps [of n] digits_val_def digit_val_char)
  next
    case False
    have "10 * int (n div 10) + int (n mod 10) = int n"
      by (metis mult_div_mod_eq of_nat_add of_nat_mult of_nat_numeral)
    with False show ?thesis
      using 1 by (simp add: show_nat.simps [of n] digit_val_char)
  qed
qed

lemma show_nat_digits: "c \<in> set (show_nat n) \<Longrightarrow> is_digit c"
proof (induction n rule: show_nat.induct)
  case (1 n)
  have "d < 10 \<Longrightarrow> is_digit (digit_char d)" for d
    by (simp add: is_digit_def digit_char_def)
  with 1 show ?case
    by (auto simp: show_nat.simps [of n] split: if_splits)
qed

lemma show_int_inj: "show_int a = show_int b \<Longrightarrow> a = b"
proof -
  have ne: "hd (show_nat n) \<noteq> CHR ''-'' \<and> show_nat n \<noteq> []" for n
  proof -
    have "show_nat n \<noteq> []" by (simp add: show_nat.simps [of n])
    moreover from this have "is_digit (hd (show_nat n))" by (intro show_nat_digits [of _ n]) simp
    moreover have "\<not> is_digit CHR ''-''" by (simp add: is_digit_def)
    ultimately show ?thesis by metis
  qed
  have inj: "show_nat m = show_nat n \<Longrightarrow> m = n" for m n
    by (metis nat_int show_nat_inverse)
  assume "show_int a = show_int b"
  then show ?thesis
    using ne [of "nat a"] ne [of "nat b"] inj
    by (auto simp: show_int_def split: if_splits dest!: inj)
       (metis list.sel(1))+
qed

section \<open>Maps with an unspecified iteration order\<close>

text \<open>
  A Go map is an association list with distinct keys. The order in which \<^verbatim>\<open>range\<close> visits a map
  is unspecified: where a result could depend on it, the order is an argument \<open>ro\<close> that
  permutes the entries, and theorems quantify over it.
\<close>

definition range_order :: "(('k \<times> 'v) list \<Rightarrow> ('k \<times> 'v) list) \<Rightarrow> bool" where
  "range_order ro \<longleftrightarrow> (\<forall>m. mset (ro m) = mset m)"

lemma range_order_id [simp, intro]: "range_order (\<lambda>m. m)"
  by (simp add: range_order_def)

lemma range_order_rev [simp, intro]: "range_order rev"
  by (simp add: range_order_def)

lemma range_order_set: "range_order ro \<Longrightarrow> set (ro m) = set m"
  by (metis mset_eq_setD range_order_def)

lemma AList_delete_filter: "AList.delete k m = filter (\<lambda>(k', _). k' \<noteq> k) m"
  by (auto simp: AList.delete_eq intro!: filter_cong)

section \<open>Loops\<close>

text \<open>The invariant rule of a \<^verbatim>\<open>range\<close> loop over a slice.\<close>

lemma foldl_invariant:
  "P st \<Longrightarrow> (\<And>st x. x \<in> set xs \<Longrightarrow> P st \<Longrightarrow> P (f st x)) \<Longrightarrow> P (foldl f st xs)"
  by (induction xs arbitrary: st) auto

end
