(* ===== verification/Go_Time.thy ===== *)
theory Go_Time
  imports Go_Prelude
begin

text \<open>
  Instants and durations. An instant (\<^verbatim>\<open>time.Time\<close>) is the number of nanoseconds since Go's
  zero time, 1 January of year 1, 00:00 UTC; a duration (\<^verbatim>\<open>time.Duration\<close>) is a 64-bit number
  of nanoseconds. \<^verbatim>\<open>Before\<close>, \<^verbatim>\<open>After\<close> and \<^verbatim>\<open>Equal\<close> are \<open><\<close>, \<open>>\<close> and \<open>=\<close>; \<^verbatim>\<open>Add\<close> is \<open>+\<close>, because an
  instant has a far wider range than a duration. A location is the offset in nanoseconds
  from UTC that holds at an instant.
\<close>

type_synonym time = int
type_synonym duration = int

definition second :: duration where
  "second = 1000000000"

definition minute :: duration where
  "minute = 60000000000"

definition hour :: duration where
  "hour = 3600000000000"

definition day :: duration where
  "day = 86400000000000"

text \<open>1 January 1970 in nanoseconds since the zero time.\<close>

definition unix_epoch :: time where
  "unix_epoch = 62135596800000000000"

lemmas time_units [model_defs] = second_def minute_def hour_def day_def unix_epoch_def

definition time_is_zero :: "time \<Rightarrow> bool" where
  "time_is_zero t \<longleftrightarrow> t = 0"

text \<open>\<^verbatim>\<open>time.Unix(0, n)\<close>.\<close>

definition time_unix :: "int \<Rightarrow> time" where
  "time_unix n = unix_epoch + n"

text \<open>\<^verbatim>\<open>t.Sub(u)\<close> saturates at the limits of a duration.\<close>

definition time_sub :: "time \<Rightarrow> time \<Rightarrow> duration" where
  "time_sub t u = max minInt64 (min maxInt64 (t - u))"

text \<open>\<^verbatim>\<open>t.Truncate(d)\<close> rounds down to a multiple of \<open>d\<close> since the zero time.\<close>

definition time_truncate :: "time \<Rightarrow> duration \<Rightarrow> time" where
  "time_truncate t d = (if d \<le> 0 then t else t - t mod d)"

lemma time_truncate_le: "time_truncate t d \<le> t"
  by (simp add: time_truncate_def)

lemma time_truncate_gt: "0 < d \<Longrightarrow> t < time_truncate t d + d"
  using pos_mod_bound [of d t] by (simp add: time_truncate_def)

lemma time_truncate_dvd: "0 < d \<Longrightarrow> d dvd time_truncate t d"
  by (simp add: time_truncate_def minus_mod_eq_mult_div)

lemma time_truncate_mono:
  assumes "t \<le> u" "0 < d"
  shows "time_truncate t d \<le> time_truncate u d"
proof -
  have "t div d \<le> u div d" using assms by (simp add: zdiv_mono1)
  then have "d * (t div d) \<le> d * (u div d)" using assms(2) by simp
  then show ?thesis using assms(2) by (simp add: time_truncate_def minus_mod_eq_mult_div)
qed

lemma time_sub_exact: "minInt64 \<le> t - u \<Longrightarrow> t - u \<le> maxInt64 \<Longrightarrow> time_sub t u = t - u"
  by (simp add: time_sub_def)

lemma time_sub_le_iff: "d \<le> maxInt64 \<Longrightarrow> minInt64 < d \<Longrightarrow> d \<le> time_sub t u \<longleftrightarrow> d \<le> t - u"
  by (auto simp: time_sub_def max_def min_def)

lemma time_sub_self [simp]: "time_sub t t = 0"
  by (simp add: time_sub_def)

section \<open>Weekday, hour and minute of a local time\<close>

datatype weekday = Sunday | Monday | Tuesday | Wednesday | Thursday | Friday | Saturday

text \<open>The zero time is a Monday.\<close>

definition time_weekday :: "time \<Rightarrow> weekday" where
  "time_weekday t =
     (let n = (t div day + 1) mod 7 in
      if n = 0 then Sunday else if n = 1 then Monday else if n = 2 then Tuesday
      else if n = 3 then Wednesday else if n = 4 then Thursday else if n = 5 then Friday
      else Saturday)"

definition time_hour :: "time \<Rightarrow> int" where
  "time_hour t = t mod day div hour"

definition time_minute :: "time \<Rightarrow> int" where
  "time_minute t = t mod hour div minute"

lemma time_hour_range: "0 \<le> time_hour t" "time_hour t \<le> 23"
proof -
  have "0 \<le> t mod day" "t mod day < day"
    by (simp_all add: day_def)
  then show "0 \<le> time_hour t" "time_hour t \<le> 23"
    by (auto simp: time_hour_def day_def hour_def pos_imp_zdiv_nonneg_iff)
qed

lemma time_minute_range: "0 \<le> time_minute t" "time_minute t \<le> 59"
proof -
  have "0 \<le> t mod hour" "t mod hour < hour"
    by (simp_all add: hour_def)
  then show "0 \<le> time_minute t" "time_minute t \<le> 59"
    by (auto simp: time_minute_def minute_def hour_def pos_imp_zdiv_nonneg_iff)
qed

end
