(* ===== verification/Schedule.thy ===== *)
theory Schedule
  imports Go_Time
begin

text \<open>
  Time-based bounds (\<^verbatim>\<open>internal/schedule/schedule.go\<close>). The time zone database is not part of
  the repository: \<open>tzdb\<close> maps a zone name to the offset from UTC, in nanoseconds, that holds
  at each instant, or to \<open>None\<close> where loading the zone fails. \<open>fmt.Sscanf\<close> with the format
  \<^verbatim>\<open>%d:%d\<close> is written out on ASCII text: it skips blanks before a number, takes a sign and
  decimal digits, and leaves its targets untouched from the first failure on.
\<close>

type_synonym location = "time \<Rightarrow> int"

record schedule_entry =
  Days :: "weekday list"
  Start :: string
  End :: string
  EntryMinCount :: int
  EntryMaxCount :: int

record schedule =
  Timezone :: string
  Entries :: "schedule_entry list"

definition load_location :: "(string \<Rightarrow> location option) \<Rightarrow> string \<Rightarrow> location option" where
  "load_location tzdb name = (if name = '''' \<or> name = ''UTC'' then Some (\<lambda>_. 0) else tzdb name)"

definition in_location :: "time \<Rightarrow> location \<Rightarrow> time" where
  "in_location t loc = t + loc t"

fun contains_day :: "weekday list \<Rightarrow> weekday \<Rightarrow> bool" where
  "contains_day days d = (if days = [] then True else list_ex (\<lambda>x. x = d) days)"

section \<open>Reading a time of day\<close>

definition scan_skip_space :: "string \<Rightarrow> string option" where
  "scan_skip_space s =
     (case dropWhile (\<lambda>c. is_space c \<and> c \<noteq> CHR 0x0A) s of
        [] \<Rightarrow> Some []
      | c # cs \<Rightarrow> if c = CHR 0x0A then None else Some (c # cs))"

definition scan_sign :: "string \<Rightarrow> int \<times> string" where
  "scan_sign s =
     (case s of
        [] \<Rightarrow> (1, [])
      | c # cs \<Rightarrow> if c = CHR ''-'' then (-1, cs) else if c = CHR ''+'' then (1, cs) else (1, s))"

text \<open>One \<^verbatim>\<open>%d\<close>: the number and the rest of the input, or \<open>None\<close> on a failure.\<close>

definition scan_int :: "string \<Rightarrow> (int \<times> string) option" where
  "scan_int s =
     (case scan_skip_space s of
        None \<Rightarrow> None
      | Some s1 \<Rightarrow>
          (case scan_sign s1 of
             (sg, s2) \<Rightarrow>
               let tok = takeWhile is_digit s2; n = sg * digits_val tok
               in if tok = [] \<or> \<not> in_int64 n then None else Some (n, dropWhile is_digit s2)))"

definition parse_time_minutes :: "string \<Rightarrow> int" where
  "parse_time_minutes t =
     (case scan_int t of
        None \<Rightarrow> 0
      | Some (h, rest) \<Rightarrow>
          (case rest of
             [] \<Rightarrow> wrap64 (h * 60)
           | c # cs \<Rightarrow>
               if c = CHR '':'' then
                 (case scan_int cs of
                    None \<Rightarrow> wrap64 (h * 60)
                  | Some (m, _) \<Rightarrow> wrap64 (h * 60 + m))
               else wrap64 (h * 60)))"

section \<open>Active bounds\<close>

fun scan_entries :: "schedule_entry list \<Rightarrow> weekday \<Rightarrow> int \<Rightarrow> (int \<times> int) option" where
  "scan_entries [] wd currentMinutes = None"
| "scan_entries (entry # es) wd currentMinutes =
     (if \<not> contains_day (Days entry) wd then scan_entries es wd currentMinutes
      else
        let startMinutes = parse_time_minutes (Start entry); endMinutes = parse_time_minutes (End entry)
        in if endMinutes < startMinutes then
             (if startMinutes \<le> currentMinutes \<or> currentMinutes \<le> endMinutes
              then Some (EntryMinCount entry, EntryMaxCount entry) else scan_entries es wd currentMinutes)
           else
             (if startMinutes \<le> currentMinutes \<and> currentMinutes \<le> endMinutes
              then Some (EntryMinCount entry, EntryMaxCount entry) else scan_entries es wd currentMinutes))"

definition local_minutes :: "time \<Rightarrow> int" where
  "local_minutes lt = time_hour lt * 60 + time_minute lt"

definition get_active_bounds :: "(string \<Rightarrow> location option) \<Rightarrow> schedule \<Rightarrow> time \<Rightarrow> (int \<times> int) option" where
  "get_active_bounds tzdb s t =
     (let loc = (case load_location tzdb (Timezone s) of None \<Rightarrow> (\<lambda>_. 0) | Some l \<Rightarrow> l);
          localTime = in_location t loc;
          wd = time_weekday localTime;
          currentMinutes = local_minutes localTime
      in scan_entries (Entries s) wd currentMinutes)"

section \<open>Times of day\<close>

lemma digits_val_bounds: "\<forall>c \<in> set s. is_digit c \<Longrightarrow> 0 \<le> digits_val s \<and> digits_val s < 10 ^ length s"
proof (induction s rule: rev_induct)
  case (snoc c s)
  then have "0 \<le> digit_val c \<and> digit_val c \<le> 9" by (auto simp: is_digit_def digit_val_def)
  moreover have "0 \<le> digits_val s \<and> digits_val s + 1 \<le> 10 ^ length s" using snoc by auto
  ultimately show ?case by simp
qed (simp add: digits_val_def)

text \<open>The text the configuration accepts: two digits, a colon, two digits.\<close>

definition hhmm :: "string \<Rightarrow> bool" where
  "hhmm s \<longleftrightarrow> length s = 5 \<and> is_digit (s ! 0) \<and> is_digit (s ! 1) \<and> s ! 2 = CHR '':''
      \<and> is_digit (s ! 3) \<and> is_digit (s ! 4)"

lemma hhmm_cases:
  assumes "hhmm s"
  obtains a b c d where "s = [a, b, CHR '':'', c, d]" "is_digit a" "is_digit b" "is_digit c" "is_digit d"
proof -
  have "length s = Suc (Suc (Suc (Suc (Suc 0))))" using assms by (simp add: hhmm_def)
  then obtain a b e c d where s: "s = [a, b, e, c, d]" by (auto simp: length_Suc_conv)
  with assms that show ?thesis by (auto simp: hhmm_def eval_nat_numeral)
qed

lemma is_digit_not_space: "is_digit c \<Longrightarrow> \<not> is_space c"
  by (auto simp: is_digit_def is_space_def)

lemma scan_int_digits:
  assumes "ds \<noteq> []" "\<forall>c \<in> set ds. is_digit c" "length ds \<le> 18" "rest = [] \<or> \<not> is_digit (hd rest)"
  shows "scan_int (ds @ rest) = Some (digits_val ds, rest)"
proof -
  obtain c cs where ds: "ds = c # cs" using assms(1) by (cases ds) auto
  then have c: "is_digit c" "\<not> is_space c" using assms(2) is_digit_not_space by auto
  have sp: "scan_skip_space (ds @ rest) = Some (ds @ rest)"
    using c by (auto simp: scan_skip_space_def ds is_space_def)
  have "c \<noteq> CHR ''-''" "c \<noteq> CHR ''+''" using c(1) by (auto simp: is_digit_def)
  then have sg: "scan_sign (ds @ rest) = (1, ds @ rest)" by (simp add: scan_sign_def ds)
  have tw: "takeWhile is_digit (ds @ rest) = ds" "dropWhile is_digit (ds @ rest) = rest"
    using assms(2,4) by (cases rest; simp add: takeWhile_append2 dropWhile_append2)+
  have "(10 :: int) ^ length ds \<le> 10 ^ 18" using assms(3) by (intro power_increasing) auto
  then have "in_int64 (digits_val ds)"
    using digits_val_bounds [OF assms(2)] by (simp add: in_int64_def)
  with sp sg tw assms(1) show ?thesis by (simp add: scan_int_def Let_def)
qed

lemma parse_hhmm:
  assumes "is_digit a" "is_digit b" "is_digit c" "is_digit d"
  shows "parse_time_minutes [a, b, CHR '':'', c, d] =
    (10 * digit_val a + digit_val b) * 60 + (10 * digit_val c + digit_val d)"
proof -
  have s1: "scan_int ([a, b] @ [CHR '':'', c, d]) = Some (digits_val [a, b], [CHR '':'', c, d])"
    using assms by (intro scan_int_digits) (auto simp: is_digit_def)
  have s2: "scan_int ([c, d] @ []) = Some (digits_val [c, d], [])"
    using assms by (intro scan_int_digits) auto
  have v: "digits_val [x, y] = 10 * digit_val x + digit_val y" for x y by (simp add: digits_val_def)
  have "0 \<le> digit_val x \<and> digit_val x \<le> 9" if "is_digit x" for x
    using that by (auto simp: is_digit_def digit_val_def)
  from this [OF assms(1)] this [OF assms(2)] this [OF assms(3)] this [OF assms(4)]
  show ?thesis using s1 s2 by (simp add: parse_time_minutes_def v wrap64_id)
qed

lemma parse_hhmm_range:
  assumes "hhmm s"
  shows "0 \<le> parse_time_minutes s \<and> parse_time_minutes s \<le> 6039"
proof -
  obtain a b c d where s: "s = [a, b, CHR '':'', c, d]" "is_digit a" "is_digit b" "is_digit c" "is_digit d"
    using hhmm_cases [OF assms] by blast
  have "0 \<le> digit_val x \<and> digit_val x \<le> 9" if "is_digit x" for x
    using that by (auto simp: is_digit_def digit_val_def)
  from this [OF s(2)] this [OF s(3)] this [OF s(4)] this [OF s(5)]
  show ?thesis by (simp add: s parse_hhmm)
qed

lemma local_minutes_range: "0 \<le> local_minutes t" "local_minutes t < 1440"
  using time_hour_range [of t] time_minute_range [of t] by (simp_all add: local_minutes_def)

section \<open>Properties\<close>

text \<open>Whether an entry holds at a weekday and minute, read as an arc of the 24-hour dial.\<close>

definition on_arc :: "int \<Rightarrow> int \<Rightarrow> int \<Rightarrow> bool" where
  "on_arc a b x \<longleftrightarrow> (x - a) mod 1440 \<le> (b - a) mod 1440"

definition entry_active :: "weekday \<Rightarrow> int \<Rightarrow> schedule_entry \<Rightarrow> bool" where
  "entry_active wd m e \<longleftrightarrow>
     (Days e = [] \<or> wd \<in> set (Days e)) \<and> on_arc (parse_time_minutes (Start e)) (parse_time_minutes (End e)) m"

definition entry_times_ok :: "schedule_entry \<Rightarrow> bool" where
  "entry_times_ok e \<longleftrightarrow> hhmm (Start e) \<and> hhmm (End e)
      \<and> parse_time_minutes (Start e) < 1440 \<and> parse_time_minutes (End e) < 1440"

definition schedule_local_time :: "(string \<Rightarrow> location option) \<Rightarrow> schedule \<Rightarrow> time \<Rightarrow> time" where
  "schedule_local_time tzdb s t =
     in_location t (case load_location tzdb (Timezone s) of None \<Rightarrow> (\<lambda>_. 0) | Some l \<Rightarrow> l)"

lemma contains_day_iff: "contains_day days d \<longleftrightarrow> days = [] \<or> d \<in> set days"
  by (auto simp: list_ex_iff)

lemma mod_1440: "- 1440 < x \<Longrightarrow> x < 1440 \<Longrightarrow> x mod 1440 = (if x < 0 then x + 1440 else (x :: int))"
  using mod_add_self2 [of x 1440] by (auto simp: mod_pos_pos_trivial simp del: mod_add_self2)

lemma on_arc_iff:
  assumes "0 \<le> a" "a < 1440" "0 \<le> b" "b < 1440" "0 \<le> x" "x < 1440"
  shows "on_arc a b x \<longleftrightarrow> (if b < a then a \<le> x \<or> x \<le> b else a \<le> x \<and> x \<le> b)"
  using assms by (auto simp: on_arc_def mod_1440)

lemma scan_entries_find:
  assumes "list_all entry_times_ok es" "0 \<le> m" "m < 1440"
  shows "scan_entries es wd m = map_option (\<lambda>e. (EntryMinCount e, EntryMaxCount e)) (find (entry_active wd m) es)"
  using assms(1)
proof (induction es)
  case (Cons e es)
  then have "entry_times_ok e" by simp
  then have "on_arc (parse_time_minutes (Start e)) (parse_time_minutes (End e)) m \<longleftrightarrow>
      (if parse_time_minutes (End e) < parse_time_minutes (Start e)
       then parse_time_minutes (Start e) \<le> m \<or> m \<le> parse_time_minutes (End e)
       else parse_time_minutes (Start e) \<le> m \<and> m \<le> parse_time_minutes (End e))"
    using assms(2,3) parse_hhmm_range by (intro on_arc_iff) (auto simp: entry_times_ok_def)
  with Cons show ?case
    by (auto simp: entry_active_def contains_day_iff Let_def simp del: contains_day.simps)
qed simp

text \<open>C30. A schedule answers with the bounds of its first active entry: with well-formed times an
  entry is active when its day list is empty or holds the local weekday and the local minute
  lies on the closed arc of the dial from its start to its end, overnight spans included. No
  active entry means no override, and a zone that cannot be loaded counts as UTC.\<close>

theorem schedule_first_active_entry:
  assumes "list_all entry_times_ok (Entries s)"
  shows "get_active_bounds tzdb s t =
    map_option (\<lambda>e. (EntryMinCount e, EntryMaxCount e))
      (find (entry_active (time_weekday (schedule_local_time tzdb s t)) (local_minutes (schedule_local_time tzdb s t)))
         (Entries s))"
  unfolding get_active_bounds_def schedule_local_time_def [symmetric] Let_def
  by (rule scan_entries_find [OF assms local_minutes_range])

definition example_schedule :: schedule where
  "example_schedule = \<lparr>Timezone = ''UTC'', Entries =
     [\<lparr>Days = [Saturday, Sunday], Start = ''00:00'', End = ''23:59'', EntryMinCount = 1, EntryMaxCount = 2\<rparr>,
      \<lparr>Days = [], Start = ''22:00'', End = ''06:00'', EntryMinCount = 0, EntryMaxCount = 3\<rparr>]\<rparr>"

lemma example_schedule_times:
  "parse_time_minutes ''22:00'' = 1320" "parse_time_minutes ''06:00'' = 360"
  "parse_time_minutes ''00:00'' = 0" "parse_time_minutes ''23:59'' = 1439"
  by (simp_all add: parse_hhmm is_digit_def digit_val_def)

theorem schedule_first_active_entry_witness:
  "get_active_bounds (\<lambda>_. None) example_schedule (23 * hour) = Some (0, 3)"
proof -
  have "list_all entry_times_ok (Entries example_schedule)"
    by (simp add: example_schedule_def entry_times_ok_def example_schedule_times hhmm_def is_digit_def)
  from schedule_first_active_entry [OF this, of "\<lambda>_. None" "23 * hour"] show ?thesis
    by (simp add: example_schedule_def schedule_local_time_def load_location_def in_location_def
        time_weekday_def local_minutes_def time_hour_def time_minute_def time_units entry_active_def
        example_schedule_times on_arc_def)
qed

definition two_digits :: "nat \<Rightarrow> string" where
  "two_digits n = [digit_char (n div 10), digit_char (n mod 10)]"

text \<open>The times of the configuration are read exactly: for every hour and minute of two digits
  the text \<open>hh:mm\<close> is read as \<open>60 * hh + mm\<close>, so parsing inverts printing.\<close>

theorem parse_printed_time:
  assumes "h < 100" "m < 100"
  shows "parse_time_minutes (two_digits h @ '':'' @ two_digits m) = 60 * int h + int m"
proof -
  have d: "is_digit (digit_char k) \<and> digit_val (digit_char k) = int k" if "k < 10" for k
    using that by (simp add: is_digit_def digit_char_def digit_val_def)
  have "h div 10 < 10" "m div 10 < 10" "h mod 10 < 10" "m mod 10 < 10" using assms by simp_all
  moreover have "10 * int (k div 10) + int (k mod 10) = int k" for k
    by (metis mult_div_mod_eq of_nat_add of_nat_mult of_nat_numeral)
  ultimately show ?thesis by (simp add: two_digits_def parse_hhmm d)
qed

theorem parse_printed_time_witness: "parse_time_minutes (two_digits 6 @ '':'' @ two_digits 45) = 405"
  using parse_printed_time [of 6 45] by simp

text \<open>The early-morning half of an overnight entry belongs to the listed day itself: an entry for
  one day \<open>d\<close> whose end is before its start is active on \<open>d\<close> from midnight to the end, and on no
  other day, so the hours after midnight that follow the listed evening are not covered.\<close>

theorem overnight_tail_on_listed_day:
  assumes "Entries s = [e]" "Days e = [d]"
    and "parse_time_minutes (End e) < parse_time_minutes (Start e)"
    and "local_minutes (schedule_local_time tzdb s t) \<le> parse_time_minutes (End e)"
  shows "get_active_bounds tzdb s t =
    (if time_weekday (schedule_local_time tzdb s t) = d then Some (EntryMinCount e, EntryMaxCount e) else None)"
  unfolding get_active_bounds_def schedule_local_time_def [symmetric] Let_def
  using assms by (auto simp: Let_def)

theorem overnight_tail_on_listed_day_witness:
  "get_active_bounds (\<lambda>_. None)
     \<lparr>Timezone = '''', Entries = [\<lparr>Days = [Friday], Start = ''22:00'', End = ''06:00'', EntryMinCount = 5, EntryMaxCount = 9\<rparr>]\<rparr>
     (5 * day + 3 * hour) = None"
  by (subst overnight_tail_on_listed_day [where d = Friday])
     (auto simp: example_schedule_times schedule_local_time_def load_location_def in_location_def
       time_weekday_def local_minutes_def time_hour_def time_minute_def time_units)

end
