(* ===== verification/Sample_Series.thy ===== *)
theory Sample_Series
  imports Go_Time "HOL-Library.List_Lexorder" "HOL-Library.Char_ord"
begin

text \<open>
  Samples and one series of the metric store (\<^verbatim>\<open>internal/metrics/store.go\<close>): the insertion of
  \<^verbatim>\<open>Add\<close>, \<^verbatim>\<open>pruneSamples\<close> and the read of the latest sample, by binary search over a slice
  ordered by event time; their refinement to a finite map from instants to values; and the
  contract \<open>event_series\<close> the store rests on.
\<close>

section \<open>Keys, samples, series\<close>

datatype metric_key = MetricKey (keyService: string) (keyName: string)

definition key_string :: "metric_key \<Rightarrow> string" where
  "key_string k = (if keyService k = [] then keyName k else keyService k @ ''/'' @ keyName k)"

instantiation metric_key :: linorder
begin

definition less_eq_metric_key :: "metric_key \<Rightarrow> metric_key \<Rightarrow> bool" where
  "less_eq_metric_key a b \<longleftrightarrow>
     keyService a < keyService b \<or> (keyService a = keyService b \<and> keyName a \<le> keyName b)"

definition less_metric_key :: "metric_key \<Rightarrow> metric_key \<Rightarrow> bool" where
  "less_metric_key a b \<longleftrightarrow>
     keyService a < keyService b \<or> (keyService a = keyService b \<and> keyName a < keyName b)"

instance
  by standard (auto simp: less_eq_metric_key_def less_metric_key_def intro: metric_key.expand)

end

record sample =
  sampleValue :: f64
  observedAt :: time

type_synonym series_map = "(metric_key \<times> sample list) list"

definition series_ok :: "sample list \<Rightarrow> bool" where
  "series_ok xs \<longleftrightarrow> sorted_wrt (\<lambda>a b. observedAt a < observedAt b) xs"

definition search_time :: "sample list \<Rightarrow> time \<Rightarrow> nat" where
  "search_time values t = sort_search (length values) (\<lambda>i. \<not> observedAt (values ! i) < t)"

text \<open>The insertion of \<^verbatim>\<open>Add\<close>: overwrite a sample at the same instant, else shift.\<close>

definition insert_sample :: "sample list \<Rightarrow> sample \<Rightarrow> sample list" where
  "insert_sample values s =
     (let index = search_time values (observedAt s) in
      if index < length values \<and> observedAt (values ! index) = observedAt s
      then values[index := s]
      else take index values @ [s] @ drop index values)"

definition prune_samples :: "sample list \<Rightarrow> time \<Rightarrow> sample list" where
  "prune_samples values cutoff =
     (if length values \<le> 1 then values
      else let first = search_time values cutoff in
        if first = 0 then values
        else if first = length values then [values ! (length values - 1)]
        else drop first values)"

definition latest_sample :: "sample list \<Rightarrow> sample option" where
  "latest_sample values = (if values = [] then None else Some (values ! (length values - 1)))"

section \<open>One series: refinement to a map from instants to values\<close>

definition series_abs :: "sample list \<Rightarrow> time \<rightharpoonup> f64" where
  "series_abs xs = map_of (map (\<lambda>s. (observedAt s, sampleValue s)) xs)"

definition retain_from :: "time \<Rightarrow> (time \<rightharpoonup> f64) \<Rightarrow> time \<rightharpoonup> f64" where
  "retain_from c m = (if dom m \<inter> {c..} = {} then m |` {Max (dom m)} else m |` {c..})"

lemma series_ok_Nil [simp]: "series_ok []"
  by (simp add: series_ok_def)

lemma series_ok_Cons: "series_ok (x # xs) \<longleftrightarrow> (\<forall>y \<in> set xs. observedAt x < observedAt y) \<and> series_ok xs"
  by (simp add: series_ok_def)

lemma series_ok_append:
  "series_ok (xs @ ys) \<longleftrightarrow>
     series_ok xs \<and> series_ok ys \<and> (\<forall>x \<in> set xs. \<forall>y \<in> set ys. observedAt x < observedAt y)"
  by (simp add: series_ok_def sorted_wrt_append)

lemma series_ok_drop [intro]: "series_ok xs \<Longrightarrow> series_ok (drop n xs)"
  by (simp add: series_ok_def sorted_wrt_drop)

lemma series_ok_tl [intro]: "series_ok xs \<Longrightarrow> series_ok (tl xs)"
  by (cases xs) (auto simp: series_ok_Cons)

lemma series_ok_filter [intro]: "series_ok xs \<Longrightarrow> series_ok (filter p xs)"
  by (simp add: series_ok_def sorted_wrt_filter)

lemma series_ok_last: "series_ok xs \<Longrightarrow> s \<in> set xs \<Longrightarrow> observedAt s \<le> observedAt (last xs)"
proof (induction xs)
  case (Cons a xs)
  then show ?case by (cases "xs = []") (auto simp: series_ok_Cons order_le_less)
qed simp

lemma series_ok_hd: "series_ok xs \<Longrightarrow> s \<in> set xs \<Longrightarrow> observedAt (hd xs) \<le> observedAt s"
  by (cases xs) (auto simp: series_ok_Cons)

lemma series_ok_inj:
  "series_ok xs \<Longrightarrow> a \<in> set xs \<Longrightarrow> b \<in> set xs \<Longrightarrow> observedAt a = observedAt b \<Longrightarrow> a = b"
  by (induction xs) (auto simp: series_ok_Cons)

lemma search_time_eq:
  assumes "series_ok xs"
  shows "search_time xs t = length (takeWhile (\<lambda>s. observedAt s < t) xs)"
proof -
  have "sorted_wrt (\<lambda>x y. \<not> observedAt x < t \<longrightarrow> \<not> observedAt y < t) xs"
    using assms unfolding series_ok_def by (rule sorted_wrt_mono_rel [rotated]) simp
  from sort_search_takeWhile [OF this] show ?thesis
    by (simp add: search_time_def)
qed

lemma search_time_le: "series_ok xs \<Longrightarrow> search_time xs t \<le> length xs"
  by (simp add: search_time_eq length_takeWhile_le)

lemma take_search_time: "series_ok xs \<Longrightarrow> take (search_time xs t) xs = takeWhile (\<lambda>s. observedAt s < t) xs"
  by (simp only: search_time_eq flip: takeWhile_eq_take)

lemma drop_search_time: "series_ok xs \<Longrightarrow> drop (search_time xs t) xs = dropWhile (\<lambda>s. observedAt s < t) xs"
  by (simp only: search_time_eq flip: dropWhile_eq_drop)

lemma dropWhile_before: "series_ok xs \<Longrightarrow> dropWhile (\<lambda>s. observedAt s < t) xs = filter (\<lambda>s. t \<le> observedAt s) xs"
proof (induction xs)
  case (Cons a xs)
  show ?case
  proof (cases "observedAt a < t")
    case False
    with Cons.prems have "\<forall>y \<in> set (a # xs). t \<le> observedAt y" by (auto simp: series_ok_Cons)
    then show ?thesis using False filter_True [of "a # xs" "\<lambda>s. t \<le> observedAt s"] by simp
  qed (use Cons in \<open>auto simp: series_ok_Cons\<close>)
qed simp

lemma takeWhile_before: "series_ok xs \<Longrightarrow> takeWhile (\<lambda>s. observedAt s < t) xs = filter (\<lambda>s. observedAt s < t) xs"
proof (induction xs)
  case (Cons a xs)
  show ?case
  proof (cases "observedAt a < t")
    case False
    with Cons.prems have "\<forall>y \<in> set (a # xs). \<not> observedAt y < t" by (auto simp: series_ok_Cons)
    then show ?thesis using False filter_False [of "a # xs" "\<lambda>s. observedAt s < t"] by simp
  qed (use Cons in \<open>auto simp: series_ok_Cons\<close>)
qed simp

text \<open>Insertion keeps what is before and after the new instant.\<close>

lemma insert_sample_eq:
  assumes "series_ok xs"
  shows "insert_sample xs s =
    filter (\<lambda>x. observedAt x < observedAt s) xs @ [s] @ filter (\<lambda>x. observedAt s < observedAt x) xs"
proof -
  let ?t = "observedAt s" and ?i = "search_time xs (observedAt s)"
  have split: "take ?i xs = filter (\<lambda>x. observedAt x < ?t) xs" "drop ?i xs = filter (\<lambda>x. ?t \<le> observedAt x) xs"
    using assms by (simp_all add: take_search_time takeWhile_before drop_search_time dropWhile_before)
  show ?thesis
  proof (cases "?i < length xs \<and> observedAt (xs ! ?i) = ?t")
    case True
    then have hd: "drop ?i xs = xs ! ?i # drop (Suc ?i) xs" by (simp add: Cons_nth_drop_Suc)
    with assms have "series_ok (xs ! ?i # drop (Suc ?i) xs)" by (metis series_ok_drop)
    then have "filter (\<lambda>x. ?t < observedAt x) (drop ?i xs) = drop (Suc ?i) xs"
      using True by (simp add: hd series_ok_Cons)
    moreover have "filter (\<lambda>x. ?t < observedAt x) (drop ?i xs) = filter (\<lambda>x. ?t < observedAt x) xs"
      by (auto simp: split intro!: filter_cong)
    ultimately show ?thesis
      using True split(1) by (simp add: insert_sample_def Let_def upd_conv_take_nth_drop)
  next
    case False
    have "\<forall>x \<in> set (drop ?i xs). observedAt x \<noteq> ?t"
    proof
      fix x assume x: "x \<in> set (drop ?i xs)"
      then have i: "?i < length xs" by (cases "?i < length xs") auto
      then have hd: "drop ?i xs = xs ! ?i # drop (Suc ?i) xs" by (simp add: Cons_nth_drop_Suc)
      moreover have "xs ! ?i \<in> set (drop ?i xs)" by (simp add: hd)
      then have "?t \<le> observedAt (xs ! ?i)" by (simp add: split)
      moreover have "series_ok (drop ?i xs)" using assms by auto
      ultimately show "observedAt x \<noteq> ?t"
        using x False i series_ok_hd [of "drop ?i xs" x] by auto
    qed
    then have "filter (\<lambda>x. ?t < observedAt x) xs = filter (\<lambda>x. ?t \<le> observedAt x) xs"
      by (intro filter_cong) (auto simp: split)
    then show ?thesis
      using False split by (auto simp: insert_sample_def Let_def)
  qed
qed

lemma series_ok_insert [intro]: "series_ok xs \<Longrightarrow> series_ok (insert_sample xs s)"
  by (auto simp: insert_sample_eq series_ok_append series_ok_Cons series_ok_filter)

lemma set_insert_sample:
  "series_ok xs \<Longrightarrow> set (insert_sample xs s) = {s} \<union> {x \<in> set xs. observedAt x \<noteq> observedAt s}"
  by (auto simp: insert_sample_eq)

lemma insert_sample_not_Nil [simp]: "series_ok xs \<Longrightarrow> insert_sample xs s \<noteq> []"
  by (simp add: insert_sample_eq)

lemma length_insert_sample: "series_ok xs \<Longrightarrow> length (insert_sample xs s) \<le> Suc (length xs)"
proof -
  assume "series_ok xs"
  moreover have "length (filter (\<lambda>x. observedAt x < observedAt s) xs)
      + length (filter (\<lambda>x. observedAt s < observedAt x) xs) \<le> length xs"
    by (induction xs) auto
  ultimately show ?thesis by (simp add: insert_sample_eq)
qed

lemma prune_samples_eq:
  assumes "series_ok xs"
  shows "prune_samples xs c =
    (let kept = filter (\<lambda>s. c \<le> observedAt s) xs in
     if kept = [] \<and> xs \<noteq> [] then [last xs] else kept)"
proof (cases "length xs \<le> 1")
  case True
  then consider "xs = []" | x where "xs = [x]" by (cases xs) auto
  then show ?thesis by cases (auto simp: prune_samples_def)
next
  case False
  let ?k = "filter (\<lambda>s. c \<le> observedAt s) xs"
  have d: "drop (search_time xs c) xs = ?k"
    using assms by (simp add: drop_search_time dropWhile_before)
  have le: "search_time xs c \<le> length xs" using assms by (rule search_time_le)
  have ne: "xs \<noteq> []" using False by auto
  show ?thesis
  proof (cases "?k = []")
    case True
    with d le have "search_time xs c = length xs" by simp
    with False ne True show ?thesis by (simp add: prune_samples_def last_conv_nth)
  next
    case kept: False
    with d have "search_time xs c < length xs" by (metis drop_all not_le)
    with False d kept show ?thesis by (auto simp: prune_samples_def Let_def)
  qed
qed

lemma set_prune_samples: "series_ok xs \<Longrightarrow> set (prune_samples xs c) \<subseteq> set xs"
  by (auto simp: prune_samples_eq Let_def)

lemma prune_samples_keeps: "series_ok xs \<Longrightarrow> s \<in> set xs \<Longrightarrow> c \<le> observedAt s \<Longrightarrow> s \<in> set (prune_samples xs c)"
  by (auto simp: prune_samples_eq Let_def filter_empty_conv)

lemma series_ok_prune [intro]: "series_ok xs \<Longrightarrow> series_ok (prune_samples xs c)"
  by (auto simp: prune_samples_eq Let_def series_ok_Cons)

lemma prune_samples_Nil_iff [simp]: "series_ok xs \<Longrightarrow> prune_samples xs c = [] \<longleftrightarrow> xs = []"
  by (auto simp: prune_samples_eq Let_def)

lemma length_prune_samples: "series_ok xs \<Longrightarrow> length (prune_samples xs c) \<le> length xs"
  by (auto simp: prune_samples_eq Let_def Suc_le_eq)

lemma series_abs_Some:
  assumes "series_ok xs"
  shows "series_abs xs t = Some v \<longleftrightarrow> (\<exists>s \<in> set xs. observedAt s = t \<and> sampleValue s = v)"
proof -
  have "distinct (map observedAt xs)"
    using assms by (induction xs) (auto simp: series_ok_Cons)
  then have "distinct (map fst (map (\<lambda>s. (observedAt s, sampleValue s)) xs))"
    by (simp add: comp_def)
  then show ?thesis by (auto simp: series_abs_def)
qed

lemma dom_series_abs: "dom (series_abs xs) = observedAt ` set xs"
  by (simp add: series_abs_def dom_map_of_conv_image_fst image_image)

lemma series_abs_eqI:
  assumes "series_ok xs" "\<And>t v. (\<exists>s \<in> set xs. observedAt s = t \<and> sampleValue s = v) \<longleftrightarrow> m t = Some v"
  shows "series_abs xs = m"
proof
  fix t
  show "series_abs xs t = m t"
    using assms series_abs_Some [OF assms(1), of t] by (metis option.exhaust)
qed

lemma series_abs_insert:
  "series_ok xs \<Longrightarrow> series_abs (insert_sample xs s) = (series_abs xs)(observedAt s \<mapsto> sampleValue s)"
  by (rule series_abs_eqI) (auto simp: set_insert_sample series_abs_Some)

lemma Max_dom_series: "series_ok xs \<Longrightarrow> xs \<noteq> [] \<Longrightarrow> Max (dom (series_abs xs)) = observedAt (last xs)"
  by (rule Max_eqI) (auto simp: dom_series_abs series_ok_last)

lemma series_abs_prune:
  assumes "series_ok xs"
  shows "series_abs (prune_samples xs c) = retain_from c (series_abs xs)"
proof (cases "xs = []")
  case True
  then show ?thesis by (auto simp: prune_samples_def series_abs_def retain_from_def)
next
  case False
  have none: "filter (\<lambda>s. c \<le> observedAt s) xs = [] \<longleftrightarrow> dom (series_abs xs) \<inter> {c..} = {}"
    by (auto simp: filter_empty_conv dom_series_abs)
  show ?thesis
  proof (cases "filter (\<lambda>s. c \<le> observedAt s) xs = []")
    case True
    then have "prune_samples xs c = [last xs]"
      using assms False by (simp add: prune_samples_eq)
    moreover have "series_abs [last xs] = series_abs xs |` {observedAt (last xs)}"
    proof (rule series_abs_eqI)
      show "series_ok [last xs]" by (simp add: series_ok_Cons)
      fix t v
      show "(\<exists>s \<in> set [last xs]. observedAt s = t \<and> sampleValue s = v) \<longleftrightarrow>
        (series_abs xs |` {observedAt (last xs)}) t = Some v"
        using assms False series_ok_inj [OF assms _ last_in_set [OF False]]
        by (auto simp: restrict_map_def series_abs_Some)
    qed
    ultimately show ?thesis
      using True none assms False by (simp add: retain_from_def Max_dom_series)
  next
    case kept: False
    then have "prune_samples xs c = filter (\<lambda>s. c \<le> observedAt s) xs"
      using assms False by (auto simp: prune_samples_eq Let_def)
    moreover have "series_abs (filter (\<lambda>s. c \<le> observedAt s) xs) = series_abs xs |` {c..}"
      using assms by (intro series_abs_eqI) (auto simp: restrict_map_def series_abs_Some)
    ultimately show ?thesis
      using kept none by (simp add: retain_from_def)
  qed
qed


lemma latest_sample_last: "latest_sample xs = (if xs = [] then None else Some (last xs))"
  by (simp add: latest_sample_def last_conv_nth)

section \<open>The contract of one series\<close>

text \<open>
  What the store relies on: insertion is a map update (the last write at an instant wins),
  pruning keeps everything from the cutoff on, and the single latest entry when nothing
  else is left, and the latest entry has the greatest instant.
\<close>

locale event_series =
  fixes val :: "'s \<Rightarrow> time \<rightharpoonup> f64"
    and invar :: "'s \<Rightarrow> bool"
    and ins :: "'s \<Rightarrow> sample \<Rightarrow> 's"
    and pru :: "'s \<Rightarrow> time \<Rightarrow> 's"
    and lat :: "'s \<Rightarrow> sample option"
  assumes finite_val: "invar s \<Longrightarrow> finite (dom (val s))"
    and val_ins: "invar s \<Longrightarrow> val (ins s x) = (val s)(observedAt x \<mapsto> sampleValue x)"
    and invar_ins: "invar s \<Longrightarrow> invar (ins s x)"
    and val_pru: "invar s \<Longrightarrow> val (pru s c) = retain_from c (val s)"
    and invar_pru: "invar s \<Longrightarrow> invar (pru s c)"
    and lat_None: "invar s \<Longrightarrow> lat s = None \<longleftrightarrow> val s = Map.empty"
    and lat_Some: "invar s \<Longrightarrow> lat s = Some x \<Longrightarrow>
      val s (observedAt x) = Some (sampleValue x) \<and> (\<forall>t \<in> dom (val s). t \<le> observedAt x)"
begin

lemma retain_from_dom: "dom (retain_from c m) \<subseteq> dom m"
  by (auto simp: retain_from_def restrict_map_def split: if_splits)

lemma retain_from_ge: "c \<le> t \<Longrightarrow> retain_from c m t = m t"
  by (cases "m t") (auto simp: retain_from_def restrict_map_def)

lemma pru_keeps_from: "invar s \<Longrightarrow> c \<le> t \<Longrightarrow> val (pru s c) t = val s t"
  by (simp add: val_pru retain_from_ge)

lemma pru_sub: "invar s \<Longrightarrow> val (pru s c) \<subseteq>\<^sub>m val s"
  by (auto simp: val_pru retain_from_def map_le_def restrict_map_def split: if_splits)

lemma lat_unique:
  assumes "invar s" "lat s = Some x" "val s t = Some v" "\<forall>u \<in> dom (val s). u \<le> t"
  shows "observedAt x = t \<and> sampleValue x = v"
  using lat_Some [OF assms(1,2)] assms(3,4) by (metis domI option.sel order_antisym)

text \<open>Pruning never changes the latest entry, at any cutoff.\<close>

lemma lat_pru:
  assumes s: "invar s"
  shows "lat (pru s c) = lat s"
proof (cases "lat s")
  case None
  then have "val s = Map.empty" using s lat_None by blast
  then have "val (pru s c) = Map.empty" using retain_from_dom [of c "val s"] s by (simp add: val_pru)
  then show ?thesis using None s invar_pru lat_None by metis
next
  case (Some x)
  note x = lat_Some [OF s Some]
  have kept: "val (pru s c) (observedAt x) = Some (sampleValue x)"
  proof (cases "c \<le> observedAt x")
    case True
    then show ?thesis using s x by (simp add: pru_keeps_from)
  next
    case False
    have "t < c" if "t \<in> dom (val s)" for t
      using x that False by (meson le_less_trans not_le)
    then have "dom (val s) \<inter> {c..} = {}" by (auto simp: not_le [symmetric])
    moreover have "Max (dom (val s)) = observedAt x"
      using x s finite_val by (intro Max_eqI) auto
    ultimately show ?thesis using s x by (simp add: val_pru retain_from_def)
  qed
  have "\<forall>t \<in> dom (val (pru s c)). t \<le> observedAt x"
    using x retain_from_dom [of c "val s"] s by (auto simp: val_pru)
  moreover obtain y where y: "lat (pru s c) = Some y"
    using kept s lat_None invar_pru by (metis not_None_eq)
  ultimately have "observedAt y = observedAt x \<and> sampleValue y = sampleValue x"
    using lat_unique [OF invar_pru [OF s] y kept] by blast
  then show ?thesis using Some y by simp
qed

lemma lat_ins_newest:
  assumes "invar s" "\<forall>t \<in> dom (val s). t \<le> observedAt x"
  shows "lat (ins s x) = Some x"
proof -
  have val: "val (ins s x) (observedAt x) = Some (sampleValue x)" "\<forall>u \<in> dom (val (ins s x)). u \<le> observedAt x"
    using assms by (auto simp: val_ins)
  then obtain y where "lat (ins s x) = Some y"
    using assms(1) invar_ins lat_None by (metis not_None_eq)
  then show ?thesis
    using lat_unique [OF invar_ins [OF assms(1)] _ val] by (metis sample.equality old.unit.exhaust)
qed

lemma ins_last_write_wins:
  "invar s \<Longrightarrow> observedAt x = observedAt y \<Longrightarrow> val (ins (ins s x) y) = val (ins s y)"
  by (simp add: val_ins invar_ins)

lemma ins_order_irrelevant:
  "invar s \<Longrightarrow> observedAt x \<noteq> observedAt y \<Longrightarrow> val (ins (ins s x) y) = val (ins (ins s y) x)"
  by (simp add: val_ins invar_ins fun_upd_twist)

end

interpretation es: event_series series_abs series_ok insert_sample prune_samples latest_sample
proof unfold_locales
  fix s x assume ok: "series_ok s"
  show "finite (dom (series_abs s))" by (simp add: dom_series_abs)
  show "(latest_sample s = None) = (series_abs s = Map.empty)"
    by (cases s) (auto simp: latest_sample_def series_abs_def)
  assume "latest_sample s = Some x"
  then have "s \<noteq> []" "x = last s" by (auto simp: latest_sample_last split: if_splits)
  then show "series_abs s (observedAt x) = Some (sampleValue x) \<and> (\<forall>t \<in> dom (series_abs s). t \<le> observedAt x)"
    using ok by (auto simp: series_abs_Some dom_series_abs series_ok_last)
qed (auto simp: series_abs_insert series_abs_prune)

end
