(* ===== verification/Metric_Store.thy ===== *)
theory Metric_Store
  imports Sample_Series
begin

text \<open>
  The metric store (\<^verbatim>\<open>internal/metrics/store.go\<close>, everything but the reads of a snapshot):
  one series per key, expired history pruned, and two hard limits that bound the memory.
  The store's clock reading is an argument of each operation, and so is the order in which
  \<^verbatim>\<open>range\<close> visits the series where the result may depend on it. A mutex makes each operation
  atomic. The lemmas give the store's invariant, its bounds, the order of eviction and the
  refinement to a map from keys to histories.
\<close>

section \<open>The store\<close>

record metric_store =
  series :: series_map
  retention :: duration
  maxSamplesPerSeries :: int
  maxSamplesTotal :: int

datatype store_option = WithRetention duration | WithSampleLimits int int

fun apply_store_option :: "store_option \<Rightarrow> metric_store \<Rightarrow> metric_store" where
  "apply_store_option (WithRetention d) s = (if 0 < d then s\<lparr>retention := d\<rparr> else s)"
| "apply_store_option (WithSampleLimits perSeries tot) s =
     (let s1 = (if 0 < perSeries then s\<lparr>maxSamplesPerSeries := perSeries\<rparr> else s) in
      if 0 < tot then s1\<lparr>maxSamplesTotal := tot\<rparr> else s1)"

definition default_retention :: duration where
  "default_retention = 30 * second"

definition new_metric_store :: "store_option list \<Rightarrow> metric_store" where
  "new_metric_store opts = fold apply_store_option opts
     \<lparr>series = [], retention = default_retention, maxSamplesPerSeries = 10000, maxSamplesTotal = 100000\<rparr>"

text \<open>\<^verbatim>\<open>s.series[key]\<close>: a missing key reads as the nil slice.\<close>

definition series_of :: "series_map \<Rightarrow> metric_key \<Rightarrow> sample list" where
  "series_of m k = (case map_of m k of None \<Rightarrow> [] | Some values \<Rightarrow> values)"

definition prune_series :: "time \<Rightarrow> series_map \<Rightarrow> series_map" where
  "prune_series cutoff m = map (\<lambda>(key, values). (key, prune_samples values cutoff)) m"

definition limit_series :: "int \<Rightarrow> series_map \<Rightarrow> series_map" where
  "limit_series mx m = map (\<lambda>(key, values).
     (key, if int (length values) > mx then drop (nat (int (length values) - mx)) values else values)) m"

fun oldest_entry :: "series_map \<Rightarrow> (metric_key \<times> time) option \<Rightarrow> (metric_key \<times> time) option" where
  "oldest_entry [] best = best"
| "oldest_entry ((key, values) # m) best =
     oldest_entry m
       (case values of
          [] \<Rightarrow> best
        | s # _ \<Rightarrow>
            (case best of
               None \<Rightarrow> Some (key, observedAt s)
             | Some (_, oldest) \<Rightarrow> if observedAt s < oldest then Some (key, observedAt s) else best))"

definition evict_oldest :: "metric_key \<Rightarrow> series_map \<Rightarrow> series_map" where
  "evict_oldest key m =
     (let values = series_of m key in
      if length values = 1 then AList.delete key m else AList.update key (drop 1 values) m)"

text \<open>
  The eviction loop. The order of the scan for the oldest sample may differ in every
  iteration; the argument \<open>ro\<close> gives it for each state of the map.
\<close>

function evict_loop :: "(series_map \<Rightarrow> series_map) \<Rightarrow> int \<Rightarrow> int \<Rightarrow> series_map \<Rightarrow> series_map" where
  "evict_loop ro mx tot m =
     (if tot > mx
      then (case oldest_entry (ro m) None of
              None \<Rightarrow> m
            | Some (key, _) \<Rightarrow> evict_loop ro mx (tot - 1) (evict_oldest key m))
      else m)"
  by pat_completeness auto
termination
  by (relation "measure (\<lambda>(ro, mx, tot, m). nat (tot - mx))") auto

declare evict_loop.simps [simp del]

definition total_samples :: "series_map \<Rightarrow> int" where
  "total_samples m = sum_list (map (\<lambda>(_, values). int (length values)) m)"

definition enforce_limits :: "(series_map \<Rightarrow> series_map) \<Rightarrow> metric_store \<Rightarrow> metric_store" where
  "enforce_limits ro s =
     (let m = limit_series (maxSamplesPerSeries s) (series s) in
      s\<lparr>series := evict_loop ro (maxSamplesTotal s) (total_samples m) m\<rparr>)"

text \<open>The first guard of \<^verbatim>\<open>Add\<close>, before it reads the clock.\<close>

definition sample_malformed :: "metric_key \<Rightarrow> sample \<Rightarrow> bool" where
  "sample_malformed key x \<longleftrightarrow>
     keyName key = [] \<or> time_is_zero (observedAt x) \<or> f64_is_nan (sampleValue x) \<or> f64_is_inf (sampleValue x)"

definition sample_rejected :: "metric_store \<Rightarrow> time \<Rightarrow> metric_key \<Rightarrow> sample \<Rightarrow> bool" where
  "sample_rejected s now key x \<longleftrightarrow>
     sample_malformed key x \<or> observedAt x > now \<or> observedAt x < now + wrap64 (- retention s)"

definition store_add ::
  "(series_map \<Rightarrow> series_map) \<Rightarrow> time \<Rightarrow> metric_key \<Rightarrow> sample \<Rightarrow> metric_store \<Rightarrow> bool \<times> metric_store" where
  "store_add ro now key x s =
     (if sample_rejected s now key x then (False, s)
      else
        let m = AList.update key (insert_sample (series_of (series s) key) x) (series s);
            s1 = s\<lparr>series := prune_series (now + wrap64 (- retention s)) m\<rparr>
        in (True, enforce_limits ro s1))"

text \<open>\<^verbatim>\<open>Set\<close> reads the clock twice: for the sample's time and inside \<^verbatim>\<open>Add\<close>.\<close>

definition store_set ::
  "(series_map \<Rightarrow> series_map) \<Rightarrow> time \<Rightarrow> time \<Rightarrow> string \<Rightarrow> f64 \<Rightarrow> metric_store \<Rightarrow> metric_store" where
  "store_set ro observed now name v s =
     snd (store_add ro now (MetricKey [] name) \<lparr>sampleValue = v, observedAt = observed\<rparr> s)"

text \<open>\<^verbatim>\<open>Snapshot\<close> prunes the store and copies every series.\<close>

definition store_snapshot ::
  "(series_map \<Rightarrow> series_map) \<Rightarrow> time \<Rightarrow> metric_store \<Rightarrow> series_map \<times> metric_store" where
  "store_snapshot ro now s =
     (let s1 = s\<lparr>series := prune_series (now + wrap64 (- retention s)) (series s)\<rparr>;
          s2 = enforce_limits ro s1
      in (series s2, s2))"

section \<open>Invariant of the store\<close>

definition sample_ok :: "sample \<Rightarrow> bool" where
  "sample_ok x \<longleftrightarrow> f64_finite (sampleValue x) \<and> \<not> time_is_zero (observedAt x)"

definition series_map_ok :: "series_map \<Rightarrow> bool" where
  "series_map_ok m \<longleftrightarrow> distinct (map fst m) \<and>
     (\<forall>(key, values) \<in> set m. keyName key \<noteq> [] \<and> values \<noteq> [] \<and> series_ok values \<and> list_all sample_ok values)"

definition store_ok :: "metric_store \<Rightarrow> bool" where
  "store_ok s \<longleftrightarrow> series_map_ok (series s) \<and> 0 < retention s \<and> retention s \<le> maxInt64 \<and> 0 < maxSamplesPerSeries s \<and> 0 < maxSamplesTotal s"

definition store_bounded :: "metric_store \<Rightarrow> bool" where
  "store_bounded s \<longleftrightarrow>
     (\<forall>(key, values) \<in> set (series s). int (length values) \<le> maxSamplesPerSeries s)
     \<and> total_samples (series s) \<le> maxSamplesTotal s"

definition store_entries :: "series_map \<Rightarrow> (metric_key \<times> sample) multiset" where
  "store_entries m = mset (concat (map (\<lambda>(key, values). map (Pair key) values) m))"

lemma series_map_okD:
  assumes "series_map_ok m" "(key, values) \<in> set m"
  shows "keyName key \<noteq> []" "values \<noteq> []" "series_ok values" "list_all sample_ok values"
  using assms by (auto simp: series_map_ok_def)

lemma series_of_in: "series_of m key \<noteq> [] \<Longrightarrow> (key, series_of m key) \<in> set m"
  by (auto simp: series_of_def dest: map_of_SomeD split: option.splits)

lemma series_of_ok [simp]: "series_map_ok m \<Longrightarrow> series_ok (series_of m key)"
  by (cases "series_of m key = []") (auto dest: series_of_in series_map_okD)

lemma series_of_eq: "series_map_ok m \<Longrightarrow> (key, values) \<in> set m \<Longrightarrow> series_of m key = values"
  by (auto simp: series_map_ok_def series_of_def)

lemma series_of_samples_ok: "series_map_ok m \<Longrightarrow> list_all sample_ok (series_of m key)"
  by (cases "series_of m key = []") (auto dest: series_of_in series_map_okD(4))

lemma list_all_subset: "list_all p ys \<Longrightarrow> set xs \<subseteq> set ys \<Longrightarrow> list_all p xs"
  by (auto simp: list_all_iff)

lemma wrap_retention: "store_ok s \<Longrightarrow> wrap64 (- retention s) = - retention s"
  by (rule wrap64_id) (auto simp: store_ok_def)

lemma series_of_update: "series_of (AList.update k v m) k' = (if k' = k then v else series_of m k')"
  by (simp add: series_of_def update_conv')

lemma map_of_prune_series: "map_of (prune_series c m) k = map_option (\<lambda>v. prune_samples v c) (map_of m k)"
  by (induction m) (auto simp: prune_series_def)

lemma series_of_prune: "series_of (prune_series c m) k = prune_samples (series_of m k) c"
  by (cases "map_of m k") (simp_all add: series_of_def map_of_prune_series prune_samples_def)

lemma prune_series_ok: "series_map_ok m \<Longrightarrow> series_map_ok (prune_series c m)"
  unfolding series_map_ok_def prune_series_def
  by (auto simp: comp_def case_prod_beta list_all_iff dest!: set_prune_samples [THEN subsetD, rotated])

lemma set_update_subset: "set (AList.update k v m) \<subseteq> insert (k, v) (set m)"
  by (induction m) auto

lemma update_ok:
  assumes "series_map_ok m" "keyName key \<noteq> []" "v \<noteq> []" "series_ok v" "list_all sample_ok v"
  shows "series_map_ok (AList.update key v m)"
  using assms by (auto simp: series_map_ok_def distinct_update dest!: set_update_subset [THEN subsetD])

lemma insert_update_ok:
  assumes "series_map_ok m" "keyName key \<noteq> []" "sample_ok x"
  shows "series_map_ok (AList.update key (insert_sample (series_of m key) x) m)"
proof -
  have "list_all sample_ok (insert_sample (series_of m key) x)"
    using series_of_samples_ok [OF assms(1), of key] assms(1,3)
    by (auto simp: list_all_iff set_insert_sample)
  with assms show ?thesis by (intro update_ok) auto
qed

lemma limit_series_ok: "series_map_ok m \<Longrightarrow> 0 < mx \<Longrightarrow> series_map_ok (limit_series mx m)"
  unfolding series_map_ok_def limit_series_def
  by (auto simp: comp_def case_prod_beta list_all_iff dest: in_set_dropD)

lemma limit_series_bound: "0 < mx \<Longrightarrow> (key, values) \<in> set (limit_series mx m) \<Longrightarrow> int (length values) \<le> mx"
  by (auto simp: limit_series_def split: if_splits)

lemma limit_series_id: "(\<forall>(key, values) \<in> set m. int (length values) \<le> mx) \<Longrightarrow> limit_series mx m = m"
  unfolding limit_series_def by (rule map_idI) auto

lemma oldest_entry_None:
  "oldest_entry m best = None \<longleftrightarrow> best = None \<and> (\<forall>(key, values) \<in> set m. values = [])"
  by (induction m best rule: oldest_entry.induct) (auto split: list.splits option.splits)

lemma oldest_entry_Some:
  "oldest_entry m best = Some (k, t) \<Longrightarrow>
     (best = Some (k, t) \<or> (\<exists>s ss. (k, s # ss) \<in> set m \<and> observedAt s = t))
     \<and> (\<forall>k0 t0. best = Some (k0, t0) \<longrightarrow> t \<le> t0)
     \<and> (\<forall>key s ss. (key, s # ss) \<in> set m \<longrightarrow> t \<le> observedAt s)"
proof (induction m best rule: oldest_entry.induct)
  case (2 key vs m best)
  let ?best = "case vs of [] \<Rightarrow> best
    | s # _ \<Rightarrow> (case best of None \<Rightarrow> Some (key, observedAt s)
        | Some (_, oldest) \<Rightarrow> if observedAt s < oldest then Some (key, observedAt s) else best)"
  have IH: "(?best = Some (k, t) \<or> (\<exists>s ss. (k, s # ss) \<in> set m \<and> observedAt s = t))
     \<and> (\<forall>k0 t0. ?best = Some (k0, t0) \<longrightarrow> t \<le> t0)
     \<and> (\<forall>key s ss. (key, s # ss) \<in> set m \<longrightarrow> t \<le> observedAt s)"
    using "2.IH" "2.prems" by simp
  show ?case
  proof (cases vs)
    case Nil
    with IH show ?thesis by simp
  next
    case (Cons s ss)
    show ?thesis
    proof (cases best)
      case None
      with IH Cons show ?thesis by auto
    next
      case (Some b)
      then obtain k0 t0 where b: "best = Some (k0, t0)" by (cases b) auto
      show ?thesis
      proof (cases "observedAt s < t0")
        case True
        with IH Cons b show ?thesis by auto
      next
        case False
        with IH Cons b show ?thesis by auto
      qed
    qed
  qed
qed auto

lemma store_entries_Cons: "store_entries ((k, v) # m) = image_mset (Pair k) (mset v) + store_entries m"
  by (simp add: store_entries_def)

lemma store_entries_Nil [simp]: "store_entries [] = {#}"
  by (simp add: store_entries_def)

lemma in_store_entries: "(k, x) \<in># store_entries m \<longleftrightarrow> (\<exists>v. (k, v) \<in> set m \<and> x \<in> set v)"
  by (auto simp: store_entries_def)

lemma total_samples_entries: "total_samples m = int (size (store_entries m))"
  by (induction m) (auto simp: total_samples_def store_entries_def)

lemma store_entries_delete_notin: "k \<notin> fst ` set m \<Longrightarrow> AList.delete k m = m"
  by (rule delete_id)

lemma store_entries_split:
  "distinct (map fst m) \<Longrightarrow> (k, v) \<in> set m \<Longrightarrow>
   store_entries m = image_mset (Pair k) (mset v) + store_entries (AList.delete k m)"
proof (induction m)
  case (Cons e m)
  obtain k' v' where e: "e = (k', v')" by (cases e)
  show ?case
  proof (cases "k' = k")
    case True
    with Cons.prems e have "k \<notin> fst ` set m" "v' = v" by (auto simp: rev_image_eqI)
    then show ?thesis using e True by (simp add: store_entries_Cons delete_id)
  next
    case False
    with Cons e show ?thesis by (simp add: store_entries_Cons ac_simps)
  qed
qed simp

lemma store_entries_update:
  "distinct (map fst m) \<Longrightarrow>
   store_entries (AList.update k v m) = image_mset (Pair k) (mset v) + store_entries (AList.delete k m)"
  by (subst store_entries_split [of _ k v])
     (auto simp: distinct_update delete_update_same update_conv' intro: map_of_SomeD)

lemma evict_oldest_ok:
  assumes "series_map_ok m" "(key, s # ss) \<in> set m"
  shows "series_map_ok (evict_oldest key m)"
    and "store_entries m = add_mset (key, s) (store_entries (evict_oldest key m))"
proof -
  have so: "series_of m key = s # ss" using assms by (rule series_of_eq)
  have d: "distinct (map fst m)" using assms(1) by (simp add: series_map_ok_def)
  note v = series_map_okD [OF assms]
  have del: "series_map_ok (AList.delete key m)"
    using assms(1) distinct_delete [of m key] by (auto simp: series_map_ok_def AList_delete_filter)
  show "series_map_ok (evict_oldest key m)"
  proof (cases "ss = []")
    case True
    then show ?thesis using del so by (simp add: evict_oldest_def)
  next
    case False
    have "series_map_ok (AList.update key ss m)"
      by (rule update_ok) (use assms(1) v False in \<open>auto simp: series_ok_Cons\<close>)
    then show ?thesis using so False by (simp add: evict_oldest_def)
  qed
  show "store_entries m = add_mset (key, s) (store_entries (evict_oldest key m))"
    using store_entries_split [OF d assms(2)] so
    by (auto simp: evict_oldest_def store_entries_update [OF d])
qed

section \<open>Eviction\<close>

text \<open>One round of the loop: the key found heads a non-empty series with the globally oldest sample.\<close>

lemma oldest_entry_round:
  assumes "series_map_ok m" "range_order ro" "m \<noteq> []"
  obtains key s ss where "oldest_entry (ro m) None = Some (key, observedAt s)" "(key, s # ss) \<in> set m"
    "\<And>k x. (k, x) \<in># store_entries m \<Longrightarrow> observedAt s \<le> observedAt x"
proof -
  have ro: "set (ro m) = set m" using assms(2) by (rule range_order_set)
  obtain k0 v0 where "(k0, v0) \<in> set m" using assms(3) by (cases m) auto
  then have "oldest_entry (ro m) None \<noteq> None"
    using series_map_okD(2) [OF assms(1)] ro unfolding oldest_entry_None by fast
  then obtain key t where found0: "oldest_entry (ro m) None = Some (key, t)" by auto
  from oldest_entry_Some [OF this] obtain s ss where s: "(key, s # ss) \<in> set m" "observedAt s = t"
    and least: "\<And>k x xs. (k, x # xs) \<in> set m \<Longrightarrow> t \<le> observedAt x"
    using ro by auto
  have found: "oldest_entry (ro m) None = Some (key, observedAt s)" using found0 s(2) by simp
  have all: "observedAt s \<le> observedAt x" if "(k, x) \<in># store_entries m" for k x
  proof -
    from that obtain v where v: "(k, v) \<in> set m" "x \<in> set v" by (auto simp: in_store_entries)
    then obtain y ys where y: "v = y # ys" by (cases v) auto
    with v have "t \<le> observedAt y" using least by blast
    also have "\<dots> \<le> observedAt x"
      using v y series_map_okD(3) [OF assms(1) v(1)] by (auto simp: series_ok_Cons)
    finally show ?thesis using s by simp
  qed
  show thesis by (rule that [OF found s(1) all])
qed

lemma evict_loop_idle: "tot \<le> mx \<Longrightarrow> evict_loop ro mx tot m = m"
  by (simp add: evict_loop.simps [of ro mx tot m])

lemma evict_loop_entries:
  assumes "series_map_ok m" "range_order ro" "tot = total_samples m" "0 \<le> mx"
  shows "series_map_ok (evict_loop ro mx tot m)
    \<and> (\<exists>ev. store_entries m = store_entries (evict_loop ro mx tot m) + ev
        \<and> int (size ev) = max 0 (tot - mx)
        \<and> (\<forall>(k, e) \<in># ev. \<forall>(k', x) \<in># store_entries (evict_loop ro mx tot m). observedAt e \<le> observedAt x))"
  using assms(1,3)
proof (induction "nat (tot - mx)" arbitrary: tot m rule: less_induct)
  case less
  show ?case
  proof (cases "tot > mx")
    case False
    with less.prems(1) show ?thesis by (simp add: evict_loop_idle)
  next
    case True
    with less.prems assms(4) have "m \<noteq> []" by (auto simp: total_samples_def)
    then obtain key s ss where o: "oldest_entry (ro m) None = Some (key, observedAt s)"
      and s: "(key, s # ss) \<in> set m"
      and least: "\<And>k x. (k, x) \<in># store_entries m \<Longrightarrow> observedAt s \<le> observedAt x"
      using oldest_entry_round [OF less.prems(1) assms(2)] by blast
    let ?m = "evict_oldest key m"
    have m': "series_map_ok ?m" "store_entries m = add_mset (key, s) (store_entries ?m)"
      using evict_oldest_ok [OF less.prems(1) s] by auto
    then have tot': "tot - 1 = total_samples ?m"
      using less.prems(2) by (simp add: total_samples_entries)
    have step: "evict_loop ro mx tot m = evict_loop ro mx (tot - 1) ?m"
      using True o by (simp add: evict_loop.simps [of ro mx tot m])
    have "nat (tot - 1 - mx) < nat (tot - mx)" using True by simp
    from less.hyps [OF this m'(1) tot'] obtain ev where
      ok: "series_map_ok (evict_loop ro mx (tot - 1) ?m)"
      and ev: "store_entries ?m = store_entries (evict_loop ro mx (tot - 1) ?m) + ev"
        "int (size ev) = max 0 (tot - 1 - mx)"
        "\<forall>(k, e) \<in># ev. \<forall>(k', x) \<in># store_entries (evict_loop ro mx (tot - 1) ?m). observedAt e \<le> observedAt x"
      by auto
    have "\<forall>(k', x) \<in># store_entries (evict_loop ro mx tot m). observedAt s \<le> observedAt x"
      using least m'(2) ev(1) step by auto
    with ok ev step m'(2) True show ?thesis
      by (intro conjI exI [of _ "add_mset (key, s) ev"]) auto
  qed
qed

lemma evict_loop_total:
  assumes "series_map_ok m" "range_order ro" "0 \<le> mx"
  shows "total_samples (evict_loop ro mx (total_samples m) m) = min mx (total_samples m)"
proof -
  obtain ev where "store_entries m = store_entries (evict_loop ro mx (total_samples m) m) + ev"
    and "int (size ev) = max 0 (total_samples m - mx)"
    using evict_loop_entries [OF assms(1,2) refl assms(3)] by blast
  then have "size (store_entries m) = size (store_entries (evict_loop ro mx (total_samples m) m)) + size ev"
    by (metis size_union)
  then have "total_samples m = total_samples (evict_loop ro mx (total_samples m) m) + int (size ev)"
    by (metis of_nat_add total_samples_entries)
  with \<open>int (size ev) = _\<close> show ?thesis by linarith
qed

lemma evict_oldest_lengths:
  assumes "series_map_ok m" "(key, s # ss) \<in> set m" "\<forall>(k, v) \<in> set m. int (length v) \<le> b"
  shows "\<forall>(k, v) \<in> set (evict_oldest key m). int (length v) \<le> b"
proof -
  have so: "series_of m key = s # ss" using assms(1,2) by (rule series_of_eq)
  have "set (evict_oldest key m) \<subseteq> insert (key, ss) (set m)"
    using so set_update_subset [of key ss m]
    by (auto simp: evict_oldest_def AList_delete_filter)
  moreover have "int (length ss) \<le> b" using assms(2,3) by fastforce
  ultimately show ?thesis using assms(3) by blast
qed

lemma evict_loop_lengths:
  assumes "series_map_ok m" "range_order ro" "0 \<le> mx" "tot = total_samples m"
    and "\<forall>(k, v) \<in> set m. int (length v) \<le> b"
  shows "\<forall>(k, v) \<in> set (evict_loop ro mx tot m). int (length v) \<le> b"
  using assms(1,4,5)
proof (induction "nat (tot - mx)" arbitrary: tot m rule: less_induct)
  case less
  show ?case
  proof (cases "tot > mx")
    case False
    with less.prems show ?thesis by (simp add: evict_loop_idle)
  next
    case True
    with less.prems assms(3) have "m \<noteq> []" by (auto simp: total_samples_def)
    from oldest_entry_round [OF less.prems(1) assms(2) this]
    obtain key s ss where o: "oldest_entry (ro m) None = Some (key, observedAt s)"
      and s: "(key, s # ss) \<in> set m" by metis
    note ev = evict_oldest_ok [OF less.prems(1) s]
    have "nat (tot - 1 - mx) < nat (tot - mx)" using True by simp
    moreover have "tot - 1 = total_samples (evict_oldest key m)"
      using ev(2) less.prems(2) by (simp add: total_samples_entries)
    ultimately have "\<forall>(k, v) \<in> set (evict_loop ro mx (tot - 1) (evict_oldest key m)). int (length v) \<le> b"
      using less.hyps ev(1) evict_oldest_lengths [OF less.prems(1) s less.prems(3)] by blast
    with True o show ?thesis by (simp add: evict_loop.simps [of ro mx tot m])
  qed
qed

lemma limit_series_subset: "store_entries (limit_series mx m) \<subseteq># store_entries m"
proof (induction m)
  case (Cons e m)
  obtain k v where e: "e = (k, v)" by (cases e)
  have "mset (drop n v) \<subseteq># mset v" for n
    by (metis append_take_drop_id mset_append mset_subset_eq_add_right)
  then have "mset (snd (hd (limit_series mx [e]))) \<subseteq># mset v" using e by (simp add: limit_series_def)
  then have "image_mset (Pair k) (mset (snd (hd (limit_series mx [e])))) \<subseteq># image_mset (Pair k) (mset v)"
    by (rule image_mset_subseteq_mono)
  moreover have "limit_series mx (e # m) = (k, snd (hd (limit_series mx [e]))) # limit_series mx m"
    using e by (simp add: limit_series_def)
  ultimately show ?case using Cons e by (simp add: store_entries_Cons subset_mset.add_mono)
qed (simp add: limit_series_def)

lemma enforce_limits_ok:
  assumes "store_ok s" "range_order ro"
  shows "store_ok (enforce_limits ro s)" "store_bounded (enforce_limits ro s)"
    "store_entries (series (enforce_limits ro s)) \<subseteq># store_entries (series s)"
proof -
  let ?m = "limit_series (maxSamplesPerSeries s) (series s)"
  let ?r = "evict_loop ro (maxSamplesTotal s) (total_samples ?m) ?m"
  have m: "series_map_ok ?m" using assms(1) by (auto simp: store_ok_def intro: limit_series_ok)
  have mx: "0 \<le> maxSamplesTotal s" "0 < maxSamplesPerSeries s" using assms(1) by (auto simp: store_ok_def)
  note ev = evict_loop_entries [OF m assms(2) refl mx(1)]
  show "store_ok (enforce_limits ro s)"
    using ev assms(1) by (simp add: enforce_limits_def Let_def store_ok_def)
  have "\<forall>(k, v) \<in> set ?r. int (length v) \<le> maxSamplesPerSeries s"
    using mx m assms(2) by (intro evict_loop_lengths) (auto dest: limit_series_bound)
  moreover have "total_samples ?r \<le> maxSamplesTotal s"
    using evict_loop_total [OF m assms(2) mx(1)] by simp
  ultimately show "store_bounded (enforce_limits ro s)"
    by (simp add: enforce_limits_def Let_def store_bounded_def)
  have "store_entries ?r \<subseteq># store_entries ?m" using ev by (auto simp: mset_subset_eq_exists_conv)
  then show "store_entries (series (enforce_limits ro s)) \<subseteq># store_entries (series s)"
    using limit_series_subset [of "maxSamplesPerSeries s" "series s"]
    by (simp add: enforce_limits_def Let_def)
qed

lemma enforce_limits_idle: "store_bounded s \<Longrightarrow> enforce_limits ro s = s"
  by (simp add: enforce_limits_def Let_def store_bounded_def limit_series_id evict_loop_idle)

section \<open>The operations keep the invariant and the bounds\<close>

lemma store_ok_series: "store_ok s \<Longrightarrow> series_map_ok m \<Longrightarrow> store_ok (s\<lparr>series := m\<rparr>)"
  by (simp add: store_ok_def)

lemma sample_accepted_ok: "\<not> sample_rejected s now key x \<Longrightarrow> keyName key \<noteq> [] \<and> sample_ok x"
  by (auto simp: sample_rejected_def sample_malformed_def sample_ok_def f64_finite_def)

definition added_store :: "time \<Rightarrow> metric_key \<Rightarrow> sample \<Rightarrow> metric_store \<Rightarrow> metric_store" where
  "added_store now key x s = s\<lparr>series := prune_series (now + wrap64 (- retention s))
     (AList.update key (insert_sample (series_of (series s) key) x) (series s))\<rparr>"

lemma store_add_accepted:
  "\<not> sample_rejected s now key x \<Longrightarrow> store_add ro now key x s = (True, enforce_limits ro (added_store now key x s))"
  by (simp add: store_add_def added_store_def Let_def)

lemma store_add_rejected: "sample_rejected s now key x \<Longrightarrow> store_add ro now key x s = (False, s)"
  by (simp add: store_add_def)

lemma added_store_ok: "store_ok s \<Longrightarrow> \<not> sample_rejected s now key x \<Longrightarrow> store_ok (added_store now key x s)"
  by (auto simp: added_store_def store_ok_def intro!: prune_series_ok insert_update_ok dest: sample_accepted_ok)

lemma series_of_added:
  "series_of (series (added_store now key x s)) k =
     prune_samples (if k = key then insert_sample (series_of (series s) key) x else series_of (series s) k)
       (now + wrap64 (- retention s))"
  by (simp add: added_store_def series_of_prune series_of_update)

lemma store_add_ok:
  "store_ok s \<Longrightarrow> range_order ro \<Longrightarrow> store_ok (snd (store_add ro now key x s))"
  by (cases "sample_rejected s now key x")
     (simp_all add: store_add_rejected store_add_accepted added_store_ok enforce_limits_ok)

lemma store_add_bounded:
  assumes "store_ok s" "range_order ro" "store_bounded s"
  shows "store_bounded (snd (store_add ro now key x s))"
  using assms by (cases "sample_rejected s now key x")
    (simp_all add: store_add_rejected store_add_accepted added_store_ok enforce_limits_ok)

lemma store_snapshot_ok:
  assumes "store_ok s" "range_order ro"
  shows "store_ok (snd (store_snapshot ro now s))" "store_bounded (snd (store_snapshot ro now s))"
    "fst (store_snapshot ro now s) = series (snd (store_snapshot ro now s))"
proof -
  have "store_ok (s\<lparr>series := prune_series (now + wrap64 (- retention s)) (series s)\<rparr>)"
    using assms(1) by (simp add: store_ok_def prune_series_ok)
  then show "store_ok (snd (store_snapshot ro now s))" "store_bounded (snd (store_snapshot ro now s))"
    "fst (store_snapshot ro now s) = series (snd (store_snapshot ro now s))"
    using assms(2) by (simp_all add: store_snapshot_def Let_def enforce_limits_ok)
qed

lemma store_option_ok: "store_ok s \<Longrightarrow> (case opt of WithRetention d \<Rightarrow> d \<le> maxInt64 | _ \<Rightarrow> True) \<Longrightarrow>
   store_ok (apply_store_option opt s)"
  by (cases opt) (auto simp: store_ok_def Let_def)

lemma new_metric_store_ok:
  assumes "\<forall>opt \<in> set opts. case opt of WithRetention d \<Rightarrow> d \<le> maxInt64 | _ \<Rightarrow> True"
  shows "store_ok (new_metric_store opts)"
proof -
  have "store_ok s \<Longrightarrow> store_ok (fold apply_store_option opts s)" for s
    using assms by (induction opts arbitrary: s) (auto intro: store_option_ok)
  moreover have "store_ok \<lparr>series = [], retention = default_retention,
      maxSamplesPerSeries = 10000, maxSamplesTotal = 100000\<rparr>"
    by (simp add: store_ok_def series_map_ok_def default_retention_def second_def)
  ultimately show ?thesis by (simp add: new_metric_store_def)
qed

text \<open>Every sample of the store after an addition was there before or is the one added.\<close>

lemma prune_series_entries:
  "series_map_ok m \<Longrightarrow> (k, y) \<in># store_entries (prune_series c m) \<Longrightarrow> (k, y) \<in># store_entries m"
  using set_prune_samples by (fastforce simp: in_store_entries prune_series_def series_map_ok_def)

lemma store_add_entries:
  assumes "store_ok s" "range_order ro" "(k, y) \<in># store_entries (series (snd (store_add ro now key x s)))"
  shows "(k, y) \<in># store_entries (series s) \<or> (k, y) = (key, x)"
proof (cases "sample_rejected s now key x")
  case True
  then show ?thesis using assms(3) by (simp add: store_add_rejected)
next
  case False
  let ?m = "AList.update key (insert_sample (series_of (series s) key) x) (series s)"
  have so: "series_map_ok (series s)" using assms(1) by (simp add: store_ok_def)
  have "(k, y) \<in># store_entries (series (added_store now key x s))"
    using assms(3) enforce_limits_ok(3) [OF added_store_ok [OF assms(1) False] assms(2)]
    by (auto simp: store_add_accepted [OF False] dest: mset_subset_eqD)
  moreover have "series_map_ok ?m"
    using so sample_accepted_ok [OF False] by (intro insert_update_ok) auto
  ultimately have "(k, y) \<in># store_entries ?m"
    by (auto simp: added_store_def intro: prune_series_entries)
  then obtain v where "(k, v) \<in> set ?m" "y \<in> set v" by (auto simp: in_store_entries)
  then have "(k, v) = (key, insert_sample (series_of (series s) key) x) \<or> (k, v) \<in> set (series s)"
    using set_update_subset by fastforce
  with \<open>y \<in> set v\<close> have "(k, v) \<in> set (series s) \<or> k = key \<and> (y \<in> set (series_of (series s) key) \<or> y = x)"
    using set_insert_sample [OF series_of_ok [OF so], of key x] by auto
  with \<open>y \<in> set v\<close> show ?thesis
    using series_of_in [of "series s" key] by (cases "series_of (series s) key = []") (auto simp: in_store_entries)
qed

section \<open>Properties\<close>

lemma total_prune_series:
  assumes "\<forall>(key, v) \<in> set m. series_ok v"
  shows "total_samples (prune_series c m) \<le> total_samples m"
  using assms
  by (induction m) (auto simp: total_samples_def prune_series_def length_prune_samples add_mono)

lemma prune_series_bounded:
  assumes "store_ok s" "store_bounded s"
  shows "store_bounded (s\<lparr>series := prune_series c (series s)\<rparr>)"
proof -
  have ok: "\<forall>(key, v) \<in> set (series s). series_ok v"
    using assms(1) by (auto simp: store_ok_def series_map_ok_def)
  have "int (length (prune_samples v c)) \<le> maxSamplesPerSeries s" if "(key, v) \<in> set (series s)" for key v
    using that ok assms(2) length_prune_samples [of v c] by (fastforce simp: store_bounded_def)
  then show ?thesis
    using total_prune_series [OF ok, of c] assms(2) by (auto simp: store_bounded_def prune_series_def)
qed

lemma store_snapshot_idle:
  assumes "store_ok s" "store_bounded s"
  shows "fst (store_snapshot ro t s) = prune_series (t + wrap64 (- retention s)) (series s)"
  by (simp add: store_snapshot_def Let_def enforce_limits_idle [OF prune_series_bounded [OF assms]])

lemma store_snapshot_latest:
  assumes "store_ok s" "store_bounded s"
  shows "latest_sample (series_of (fst (store_snapshot ro now s)) k) = latest_sample (series_of (series s) k)"
proof -
  have "series_ok (series_of (series s) k)" using assms(1) by (simp add: store_ok_def)
  then show ?thesis by (simp add: store_snapshot_idle [OF assms] series_of_prune es.lat_pru)
qed

definition example_store :: metric_store where
  "example_store = (new_metric_store [WithRetention 100, WithSampleLimits 3 4])\<lparr>series :=
     [(MetricKey ''a'' ''q'', [\<lparr>sampleValue = Fin 1, observedAt = 910\<rparr>, \<lparr>sampleValue = Fin 2, observedAt = 950\<rparr>]),
      (MetricKey ''b'' ''q'', [\<lparr>sampleValue = Fin 7, observedAt = 920\<rparr>])]\<rparr>"

lemma example_store_ok: "store_ok example_store" "store_bounded example_store"
  by (simp_all add: example_store_def new_metric_store_def store_ok_def store_bounded_def
      series_map_ok_def series_ok_def sample_ok_def f64_finite_def time_is_zero_def total_samples_def)

text \<open>Every operation of the store keeps its invariant: keys are distinct and named, every
  series is non-empty and strictly ordered by event time, every sample is finite and has a
  non-zero time. This holds for every order in which the maps are iterated.\<close>

theorem store_operations_keep_invariant:
  assumes "store_ok s" "range_order ro"
  shows "store_ok (snd (store_add ro now key x s)) \<and> store_ok (snd (store_snapshot ro now s))
    \<and> store_ok (store_set ro observed now name v s)"
  using assms by (simp add: store_add_ok store_snapshot_ok store_set_def)

theorem store_operations_keep_invariant_witness:
  "store_ok (snd (store_add rev 960 (MetricKey ''b'' ''q'') \<lparr>sampleValue = Fin 3, observedAt = 955\<rparr> example_store))"
  using store_operations_keep_invariant [OF example_store_ok(1) range_order_rev] by blast

text \<open>C23. After an accepted sample, and after every snapshot, the hard limits hold: no series is
  longer than its limit and the store holds at most the total limit, whatever it held before.\<close>

theorem store_limits_enforced:
  assumes "store_ok s" "range_order ro"
  shows "(fst (store_add ro now key x s) \<longrightarrow> store_bounded (snd (store_add ro now key x s)))
    \<and> store_bounded (snd (store_snapshot ro now s))"
  using assms
  by (cases "sample_rejected s now key x")
     (simp_all add: store_add_rejected store_add_accepted added_store_ok enforce_limits_ok store_snapshot_ok)

theorem store_limits_enforced_witness:
  "store_bounded (snd (store_add rev 960 (MetricKey ''b'' ''q'') \<lparr>sampleValue = Fin 3, observedAt = 955\<rparr> example_store))"
proof -
  have "fst (store_add rev 960 (MetricKey ''b'' ''q'') \<lparr>sampleValue = Fin 3, observedAt = 955\<rparr> example_store)"
    by (simp add: store_add_def sample_rejected_def sample_malformed_def example_store_def new_metric_store_def Let_def
        time_is_zero_def wrap64_eq)
  then show ?thesis using store_limits_enforced [OF example_store_ok(1) range_order_rev] by blast
qed

text \<open>C22. Global eviction discards the oldest event-time samples first: what the eviction loop
  removes is exactly the excess over the limit, and nothing removed is newer than anything
  kept, across all series and for every iteration order.\<close>

theorem eviction_oldest_first:
  assumes "series_map_ok m" "range_order ro" "0 \<le> mx"
  defines "kept \<equiv> evict_loop ro mx (total_samples m) m"
  shows "\<exists>evicted. store_entries m = store_entries kept + evicted
    \<and> int (size evicted) = max 0 (total_samples m - mx)
    \<and> (\<forall>(k, e) \<in># evicted. \<forall>(k', x) \<in># store_entries kept. observedAt e \<le> observedAt x)"
  using evict_loop_entries [OF assms(1,2) refl assms(3)] unfolding kept_def by blast

theorem eviction_oldest_first_witness:
  "\<exists>evicted. store_entries (series example_store) =
      store_entries (evict_loop rev 1 (total_samples (series example_store)) (series example_store)) + evicted
    \<and> int (size evicted) = 2"
proof -
  have ok: "series_map_ok (series example_store)"
    using example_store_ok(1) by (simp add: store_ok_def)
  have "total_samples (series example_store) = 3"
    by (simp add: example_store_def total_samples_def)
  then show ?thesis using eviction_oldest_first [OF ok range_order_rev, of 1] by auto
qed



text \<open>Pruning never loses the latest sample of a series: while the limits are not hit, the
  latest sample of every key in a snapshot is the latest sample of the store, however old it is
  and whatever the clock says. Target policies rest on this.\<close>

theorem snapshot_keeps_latest:
  assumes "store_ok s" "store_bounded s"
  shows "latest_sample (series_of (fst (store_snapshot ro now s)) k) = latest_sample (series_of (series s) k)"
  using assms by (rule store_snapshot_latest)

theorem snapshot_keeps_latest_witness:
  "latest_sample (series_of (fst (store_snapshot rev 5000 example_store)) (MetricKey ''a'' ''q''))
    = Some \<lparr>sampleValue = Fin 2, observedAt = 950\<rparr>"
  using snapshot_keeps_latest [OF example_store_ok, of rev 5000 "MetricKey ''a'' ''q''"]
  by (simp add: example_store_def new_metric_store_def series_of_def latest_sample_def)

text \<open>A rejected sample changes nothing, and the rejected samples are exactly those without a
  metric name or a time, with a value that is not finite, from the future of the store's clock
  or older than the retention.\<close>

theorem store_add_rejects:
  assumes "store_ok s"
  shows "(fst (store_add ro now key x s) \<longleftrightarrow>
      keyName key \<noteq> [] \<and> observedAt x \<noteq> 0 \<and> (\<exists>r. sampleValue x = Fin r)
      \<and> now - retention s \<le> observedAt x \<and> observedAt x \<le> now)
    \<and> (\<not> fst (store_add ro now key x s) \<longrightarrow> snd (store_add ro now key x s) = s)"
proof -
  have "fst (store_add ro now key x s) \<longleftrightarrow> \<not> sample_rejected s now key x"
    by (simp add: store_add_def Let_def)
  moreover have "\<not> f64_is_nan (sampleValue x) \<and> \<not> f64_is_inf (sampleValue x) \<longleftrightarrow> (\<exists>r. sampleValue x = Fin r)"
    using f64_finite_iff [of "sampleValue x"] by (simp add: f64_finite_def)
  ultimately show ?thesis
    using wrap_retention [OF assms] by (auto simp: sample_rejected_def sample_malformed_def time_is_zero_def store_add_rejected)
qed

theorem store_add_rejects_witness:
  "snd (store_add rev 960 (MetricKey ''a'' ''q'') \<lparr>sampleValue = NaN, observedAt = 950\<rparr> example_store) = example_store"
  using store_add_rejects [OF example_store_ok(1), of rev 960 "MetricKey ''a'' ''q''"
      "\<lparr>sampleValue = NaN, observedAt = 950\<rparr>"] by simp

end
