(* ===== verification/Metric_Snapshot.thy ===== *)
theory Metric_Snapshot
  imports Metric_Store
begin

text \<open>
  Snapshots of the metric store (\<^verbatim>\<open>internal/metrics/store.go\<close>, \<^verbatim>\<open>metricSnapshot\<close>): the latest
  sample of a key, the completed buckets of a window and the reason a window is unusable.
  \<^verbatim>\<open>Snapshot\<close> is an interface in the code; a snapshot is a record of its two methods, and the
  contract \<open>window_source\<close> says what the policies rely on.
\<close>

record bucket =
  bucketStart :: time
  bucketEnd :: time
  bucketSample :: sample

datatype bucket_status =
  BucketComplete | BucketMissing | BucketStale | BucketGap | BucketIncomplete | BucketPreReset

fun status_string :: "bucket_status \<Rightarrow> string" where
  "status_string BucketComplete = ''complete''"
| "status_string BucketMissing = ''missing''"
| "status_string BucketStale = ''stale''"
| "status_string BucketGap = ''gap''"
| "status_string BucketIncomplete = ''incomplete''"
| "status_string BucketPreReset = ''pre_reset''"

fun status_reason :: "bucket_status \<Rightarrow> int \<Rightarrow> int \<Rightarrow> string" where
  "status_reason BucketMissing expected found = ''window missing: no metric samples''"
| "status_reason BucketStale expected found = ''window stale: newest completed bucket is missing''"
| "status_reason BucketGap expected found = ''window gap: completed buckets are not contiguous''"
| "status_reason BucketPreReset expected found =
     ''window reset: available buckets predate the last scale event''"
| "status_reason BucketIncomplete expected found =
     ''window incomplete: expected '' @ show_int expected @ '' complete buckets, found '' @ show_int found"
| "status_reason status expected found = status_string status"

definition snapshot_samples :: "series_map \<Rightarrow> metric_key \<Rightarrow> sample list" where
  "snapshot_samples m key =
     (let values = series_of m key in
      if length values = 0 \<and> keyService key \<noteq> []
      then series_of m (MetricKey [] (keyName key))
      else values)"

definition snapshot_latest :: "series_map \<Rightarrow> metric_key \<Rightarrow> sample option" where
  "snapshot_latest m key = latest_sample (snapshot_samples m key)"

text \<open>The start of bucket \<open>i\<close> of a window whose oldest bucket starts at \<open>oldestStart\<close>.\<close>

definition bucket_start :: "time \<Rightarrow> duration \<Rightarrow> nat \<Rightarrow> time" where
  "bucket_start oldestStart width i = oldestStart + wrap64 (int i * width)"

definition window_oldest_start :: "time \<Rightarrow> duration \<Rightarrow> int \<Rightarrow> time" where
  "window_oldest_start now width cnt =
     time_truncate now width + wrap64 (wrap64 (- cnt) * width)"

text \<open>The body of the bucket loop: the last sample before the end, if one lies in the bucket.\<close>

definition bucket_at :: "sample list \<Rightarrow> time \<Rightarrow> duration \<Rightarrow> nat \<Rightarrow> bucket option" where
  "bucket_at values oldestStart width i =
     (let start = bucket_start oldestStart width i;
          end' = start + width;
          first = search_time values start;
          last' = search_time values end'
      in if first = last' then None
         else Some \<lparr>bucketStart = start, bucketEnd = end', bucketSample = values ! (last' - 1)\<rparr>)"

definition complete_buckets ::
  "series_map \<Rightarrow> metric_key \<Rightarrow> time \<Rightarrow> duration \<Rightarrow> int \<Rightarrow> time \<Rightarrow> bucket list \<times> bucket_status" where
  "complete_buckets m key now width cnt after =
     (if width \<le> 0 \<or> cnt \<le> 0 then ([], BucketIncomplete)
      else
        let oldestStart = window_oldest_start now width cnt in
        if \<not> time_is_zero after \<and> list_ex (\<lambda>i. bucket_start oldestStart width i < after) [0..<nat cnt]
        then ([], BucketPreReset)
        else
          let values = snapshot_samples m key in
          if length values = 0 then ([], BucketMissing)
          else
            let found = map (bucket_at values oldestStart width) [0..<nat cnt];
                buckets = List.map_filter id found;
                missing = filter (\<lambda>i. found ! i = None) [0..<nat cnt]
            in if length missing = 0 then (buckets, BucketComplete)
               else if int (missing ! (length missing - 1)) = cnt - 1 then (buckets, BucketStale)
               else if list_ex (\<lambda>index. index > 0) missing then (buckets, BucketGap)
               else if length buckets = 0 then ([], BucketMissing)
               else (buckets, BucketIncomplete))"

section \<open>The interface\<close>

record snapshot =
  Latest :: "metric_key \<Rightarrow> sample option"
  CompleteBuckets :: "metric_key \<Rightarrow> time \<Rightarrow> duration \<Rightarrow> int \<Rightarrow> time \<Rightarrow> bucket list \<times> bucket_status"

definition metric_snapshot :: "series_map \<Rightarrow> snapshot" where
  "metric_snapshot m = \<lparr>Latest = snapshot_latest m, CompleteBuckets = complete_buckets m\<rparr>"

section \<open>Compatibility reads\<close>

text \<open>\<^verbatim>\<open>Get\<close> and \<^verbatim>\<open>AsMap\<close> take a snapshot and so prune the store. The second visits the copied series
  in some order; of two keys with the same text the one visited last remains.\<close>

definition store_get ::
  "(series_map \<Rightarrow> series_map) \<Rightarrow> time \<Rightarrow> string \<Rightarrow> metric_store \<Rightarrow> (f64 \<times> bool) \<times> metric_store" where
  "store_get ro now name s =
     (case store_snapshot ro now s of
        (m, s1) \<Rightarrow>
          ((case snapshot_latest m (MetricKey [] name) of None \<Rightarrow> (Fin 0, False) | Some x \<Rightarrow> (sampleValue x, True)), s1))"

definition as_map_step :: "(string \<times> f64) list \<Rightarrow> metric_key \<times> sample list \<Rightarrow> (string \<times> f64) list" where
  "as_map_step result kv =
     (case kv of
        (key, values) \<Rightarrow>
          if length values > 0 then AList.update (key_string key) (sampleValue (values ! (length values - 1))) result else result)"

definition as_map ::
  "(series_map \<Rightarrow> series_map) \<Rightarrow> time \<Rightarrow> metric_store \<Rightarrow> (string \<times> f64) list \<times> metric_store" where
  "as_map ro now s = (case store_snapshot ro now s of (m, s1) \<Rightarrow> (foldl as_map_step [] (ro m), s1))"

section \<open>What a bucket holds\<close>

text \<open>A bucket is represented by the sample with the greatest event time in its half-open interval.\<close>

definition represents :: "sample list \<Rightarrow> time \<Rightarrow> time \<Rightarrow> sample \<Rightarrow> bool" where
  "represents xs a b s \<longleftrightarrow> s \<in> set xs \<and> a \<le> observedAt s \<and> observedAt s < b
     \<and> (\<forall>x \<in> set xs. observedAt x < b \<longrightarrow> observedAt x \<le> observedAt s)"

lemma search_time_mono: "series_ok xs \<Longrightarrow> a \<le> b \<Longrightarrow> search_time xs a \<le> search_time xs b"
proof -
  assume xs: "series_ok xs" and ab: "a \<le> b"
  have "filter (\<lambda>s. observedAt s < a) xs = filter (\<lambda>s. observedAt s < a) (filter (\<lambda>s. observedAt s < b) xs)"
    using ab by (auto intro: filter_cong)
  then have "length (filter (\<lambda>s. observedAt s < a) xs) \<le> length (filter (\<lambda>s. observedAt s < b) xs)"
    by (metis length_filter_le)
  with xs show ?thesis by (simp add: search_time_eq takeWhile_before)
qed

lemma search_time_same_iff:
  assumes "series_ok xs" "a \<le> b"
  shows "search_time xs a = search_time xs b \<longleftrightarrow> (\<forall>x \<in> set xs. \<not> (a \<le> observedAt x \<and> observedAt x < b))"
proof -
  have "length (filter (\<lambda>s. observedAt s < b) xs)
      = length (filter (\<lambda>s. observedAt s < a) xs) + length (filter (\<lambda>s. a \<le> observedAt s \<and> observedAt s < b) xs)"
    using assms(2) by (induction xs) auto
  then show ?thesis using assms(1) by (simp add: search_time_eq takeWhile_before filter_empty_conv)
qed

lemma last_before:
  assumes "series_ok xs" "0 < search_time xs b"
  shows "xs ! (search_time xs b - 1) = last (filter (\<lambda>s. observedAt s < b) xs)"
proof -
  let ?f = "filter (\<lambda>s. observedAt s < b) xs"
  have t: "take (search_time xs b) xs = ?f"
    using assms(1) by (simp add: take_search_time takeWhile_before)
  have le: "search_time xs b \<le> length xs" using assms(1) by (rule search_time_le)
  then have "last (take (search_time xs b) xs) = xs ! (search_time xs b - 1)"
    using assms(2) by (subst last_conv_nth) auto
  with t show ?thesis by simp
qed

lemma bucket_at_None_iff:
  assumes "series_ok xs" "0 \<le> width"
  shows "bucket_at xs os width i = None \<longleftrightarrow>
    (\<forall>x \<in> set xs. \<not> (bucket_start os width i \<le> observedAt x \<and> observedAt x < bucket_start os width i + width))"
  using search_time_same_iff [OF assms(1), of "bucket_start os width i" "bucket_start os width i + width"] assms(2)
  by (simp add: bucket_at_def Let_def)

lemma bucket_at_Some:
  assumes "series_ok xs" "0 \<le> width" "bucket_at xs os width i = Some b"
  shows "bucketStart b = bucket_start os width i" "bucketEnd b = bucketStart b + width"
    "represents xs (bucketStart b) (bucketEnd b) (bucketSample b)"
proof -
  let ?a = "bucket_start os width i"
  let ?e = "?a + width"
  have ne: "search_time xs ?a \<noteq> search_time xs ?e"
    and b: "b = \<lparr>bucketStart = ?a, bucketEnd = ?e, bucketSample = xs ! (search_time xs ?e - 1)\<rparr>"
    using assms(3) by (auto simp: bucket_at_def Let_def split: if_splits)
  then show "bucketStart b = ?a" "bucketEnd b = bucketStart b + width" by simp_all
  have "search_time xs ?a \<le> search_time xs ?e" using assms(1,2) by (simp add: search_time_mono)
  with ne have pos: "0 < search_time xs ?e" by simp
  let ?f = "filter (\<lambda>s. observedAt s < ?e) xs"
  have s: "bucketSample b = last ?f" using b last_before [OF assms(1) pos] by simp
  obtain x where x: "x \<in> set xs" "?a \<le> observedAt x" "observedAt x < ?e"
    using ne assms(1,2) search_time_same_iff [of xs ?a ?e] by auto
  then have ne': "?f \<noteq> []" by (auto simp: filter_empty_conv)
  have newest: "observedAt y \<le> observedAt (last ?f)" if "y \<in> set ?f" for y
    using that assms(1) by (intro series_ok_last) auto
  have "last ?f \<in> set xs" "observedAt (last ?f) < ?e"
    using last_in_set [OF ne'] unfolding set_filter by blast+
  moreover have "?a \<le> observedAt (last ?f)" using newest [of x] x by simp
  ultimately have "represents xs ?a ?e (last ?f)"
    using newest by (simp add: represents_def)
  then show "represents xs (bucketStart b) (bucketEnd b) (bucketSample b)"
    unfolding s using b by simp
qed

lemma represents_unique:
  "series_ok xs \<Longrightarrow> represents xs a b s \<Longrightarrow> represents xs a b s' \<Longrightarrow> s = s'"
  by (auto simp: represents_def intro!: series_ok_inj antisym)

text \<open>The index read of the loop is in range: no out-of-bounds access on an ordered series.\<close>

lemma bucket_at_in_range:
  assumes "series_ok xs" "0 \<le> width"
    and "search_time xs (bucket_start os width i) \<noteq> search_time xs (bucket_start os width i + width)"
  shows "1 \<le> search_time xs (bucket_start os width i + width)
    \<and> search_time xs (bucket_start os width i + width) - 1 < length xs"
proof -
  have "search_time xs (bucket_start os width i) \<le> search_time xs (bucket_start os width i + width)"
    using assms(1,2) by (simp add: search_time_mono)
  moreover have "search_time xs (bucket_start os width i + width) \<le> length xs"
    using assms(1) by (rule search_time_le)
  ultimately show ?thesis using assms(3) by linarith
qed

section \<open>The window's buckets\<close>

definition window_fits :: "duration \<Rightarrow> int \<Rightarrow> bool" where
  "window_fits width cnt \<longleftrightarrow> 0 < width \<and> 0 < cnt \<and> cnt * width \<le> maxInt64"

lemma window_fits_int64:
  assumes "window_fits width cnt" "int i \<le> cnt"
  shows "wrap64 (int i * width) = int i * width" "wrap64 (wrap64 (- cnt) * width) = - (cnt * width)"
    "wrap64 (- cnt) = - cnt"
proof -
  from assms have w: "0 < width" "0 < cnt" "cnt * width \<le> maxInt64" by (auto simp: window_fits_def)
  have iw: "0 \<le> int i * width" "int i * width \<le> cnt * width"
    using w assms(2) by (auto intro: mult_right_mono)
  show "wrap64 (int i * width) = int i * width"
    by (rule wrap64_id) (use w iw in linarith)+
  have cw: "0 < cnt * width" using w by simp
  have "cnt * 1 \<le> cnt * width" using w by (intro mult_left_mono) auto
  then have c: "cnt \<le> maxInt64" using w by linarith
  then show wc: "wrap64 (- cnt) = - cnt" using w by (intro wrap64_id) auto
  show "wrap64 (wrap64 (- cnt) * width) = - (cnt * width)"
    unfolding wc minus_mult_left [symmetric] by (rule wrap64_id) (use w cw in linarith)+
qed

lemma window_oldest_start_eq:
  "window_fits width cnt \<Longrightarrow> window_oldest_start now width cnt = time_truncate now width - cnt * width"
  using window_fits_int64(2) [of width cnt 0] by (auto simp: window_oldest_start_def window_fits_def)

lemma bucket_start_eq:
  "window_fits width cnt \<Longrightarrow> int i \<le> cnt \<Longrightarrow> bucket_start os width i = os + int i * width"
  by (simp add: bucket_start_def window_fits_int64)

text \<open>The start of bucket \<open>i\<close> of a window of \<open>cnt\<close> buckets that ends at the newest boundary.\<close>

definition window_slot :: "time \<Rightarrow> duration \<Rightarrow> int \<Rightarrow> nat \<Rightarrow> time" where
  "window_slot now width cnt i = time_truncate now width - (cnt - int i) * width"

definition slot_covered :: "sample list \<Rightarrow> time \<Rightarrow> duration \<Rightarrow> int \<Rightarrow> nat \<Rightarrow> bool" where
  "slot_covered xs now width cnt i \<longleftrightarrow>
     (\<exists>x \<in> set xs. window_slot now width cnt i \<le> observedAt x \<and> observedAt x < window_slot now width cnt i + width)"

lemma window_bucket_start:
  "window_fits width cnt \<Longrightarrow> int i \<le> cnt \<Longrightarrow>
   bucket_start (window_oldest_start now width cnt) width i = window_slot now width cnt i"
  by (simp add: bucket_start_eq window_oldest_start_eq window_slot_def algebra_simps)

lemma window_slot_le: "0 < width \<Longrightarrow> int i < cnt \<Longrightarrow> window_slot now width cnt i + width \<le> now"
proof -
  assume "0 < width" "int i < cnt"
  then have "1 * width \<le> (cnt - int i) * width" by (intro mult_right_mono) auto
  then show ?thesis using time_truncate_le [of now width] by (simp add: window_slot_def)
qed

lemma window_slot_mono: "0 < width \<Longrightarrow> i \<le> j \<Longrightarrow> window_slot now width cnt i \<le> window_slot now width cnt j"
  by (simp add: window_slot_def)

lemma window_slot_Suc: "window_slot now width cnt (Suc i) = window_slot now width cnt i + width"
  by (simp add: window_slot_def algebra_simps)

lemma bucket_at_covered:
  assumes "series_ok xs" "window_fits width cnt" "int i \<le> cnt"
  shows "bucket_at xs (window_oldest_start now width cnt) width i = None \<longleftrightarrow> \<not> slot_covered xs now width cnt i"
  using assms bucket_at_None_iff [OF assms(1), of width "window_oldest_start now width cnt" i]
  by (auto simp: slot_covered_def window_bucket_start window_fits_def)

section \<open>The status of a window\<close>

text \<open>The reset check looks at every bucket, and the oldest one decides.\<close>

lemma pre_reset_check:
  assumes "window_fits width cnt"
  shows "list_ex (\<lambda>i. bucket_start (window_oldest_start now width cnt) width i < after) [0..<nat cnt]
    \<longleftrightarrow> window_slot now width cnt 0 < after"
proof -
  from assms have w: "0 < width" "0 < cnt" by (auto simp: window_fits_def)
  have "list_ex (\<lambda>i. bucket_start (window_oldest_start now width cnt) width i < after) [0..<nat cnt]
      \<longleftrightarrow> (\<exists>i < nat cnt. window_slot now width cnt i < after)"
    using assms by (auto simp: list_ex_iff window_bucket_start)
  also have "\<dots> \<longleftrightarrow> window_slot now width cnt 0 < after"
    using w window_slot_mono [OF w(1), of 0] by (metis le0 le_less_trans zero_less_nat_eq)
  finally show ?thesis .
qed

lemma map_filter_all_Some: "\<forall>x \<in> set xs. x \<noteq> None \<Longrightarrow> List.map_filter id xs = map the xs"
  by (induction xs) (auto simp: map_filter_simps)

lemma map_filter_length: "length (List.map_filter id xs) = length (filter (\<lambda>x. x \<noteq> None) xs)"
  by (induction xs) (auto simp: map_filter_simps)

text \<open>The case analysis over the indices of the missing buckets.\<close>

definition window_status :: "(nat \<Rightarrow> bool) \<Rightarrow> int \<Rightarrow> bucket_status" where
  "window_status covered cnt =
     (if \<forall>i < nat cnt. covered i then BucketComplete
      else if \<not> covered (nat cnt - 1) then BucketStale
      else if \<exists>i < nat cnt. 0 < i \<and> \<not> covered i then BucketGap
      else BucketIncomplete)"

lemma last_missing_index:
  assumes "0 < n" "filter p [0..<n] \<noteq> []"
  shows "filter p [0..<n] ! (length (filter p [0..<n]) - 1) = n - 1 \<longleftrightarrow> p (n - 1)"
proof -
  obtain k where n: "n = Suc k" using assms(1) by (cases n) auto
  have "last (filter p [0..<n]) = n - 1 \<longleftrightarrow> p (n - 1)"
  proof (cases "p k")
    case False
    then have "filter p [0..<n] = filter p [0..<k]" by (simp add: n)
    moreover from this assms(2) have "last (filter p [0..<k]) \<in> set (filter p [0..<k])" by (metis last_in_set)
    ultimately show ?thesis using False by (auto simp: n)
  qed (simp add: n)
  then show ?thesis using assms(2) by (simp add: last_conv_nth)
qed

lemma complete_buckets_checked:
  assumes "series_ok (snapshot_samples m key)" "window_fits width cnt"
    "\<not> time_is_zero after \<longrightarrow> after \<le> window_slot now width cnt 0" "snapshot_samples m key \<noteq> []"
  defines "found \<equiv> map (bucket_at (snapshot_samples m key) (window_oldest_start now width cnt) width) [0..<nat cnt]"
  shows "complete_buckets m key now width cnt after =
    (List.map_filter id found, window_status (slot_covered (snapshot_samples m key) now width cnt) cnt)"
proof -
  let ?c = "slot_covered (snapshot_samples m key) now width cnt" and ?n = "nat cnt"
  let ?missing = "filter (\<lambda>i. found ! i = None) [0..<?n]"
  have n: "0 < ?n" "0 < cnt" "0 < width" using assms(2) by (auto simp: window_fits_def)
  have missing: "?missing = filter (\<lambda>i. \<not> ?c i) [0..<?n]"
    using assms(1,2) by (intro filter_cong) (auto simp: found_def bucket_at_covered)
  have unfold: "complete_buckets m key now width cnt after =
      (if length ?missing = 0 then (List.map_filter id found, BucketComplete)
       else if int (?missing ! (length ?missing - 1)) = cnt - 1 then (List.map_filter id found, BucketStale)
       else if list_ex (\<lambda>index. index > 0) ?missing then (List.map_filter id found, BucketGap)
       else if length (List.map_filter id found) = 0 then ([], BucketMissing)
       else (List.map_filter id found, BucketIncomplete))"
  proof -
    have guards: "(width \<le> 0 \<or> cnt \<le> 0) = False" "(length (snapshot_samples m key) = 0) = False"
      using n assms(4) by auto
    have reset: "(\<not> time_is_zero after \<and> list_ex (\<lambda>i. bucket_start (window_oldest_start now width cnt) width i < after)
        [0..<nat cnt]) = False"
      using assms(2,3) by (auto simp: pre_reset_check)
    show ?thesis
      unfolding complete_buckets_def Let_def found_def guards reset if_False by (rule refl)
  qed
  have nonempty: "length (List.map_filter id found) \<noteq> 0" if "?c (?n - 1)"
  proof -
    have "found ! (?n - 1) \<noteq> None" "?n - 1 < length found"
      using that assms(1,2) n by (auto simp: found_def bucket_at_covered)
    then show ?thesis unfolding map_filter_length by (metis (mono_tags, lifting) filter_empty_conv length_0_conv nth_mem)
  qed
  have last: "int (?missing ! (length ?missing - 1)) = cnt - 1 \<longleftrightarrow> \<not> ?c (?n - 1)" if "?missing \<noteq> []"
    using last_missing_index [OF n(1), of "\<lambda>i. \<not> ?c i"] that n unfolding missing by auto
  have empty: "length ?missing = 0 \<longleftrightarrow> (\<forall>i < ?n. ?c i)"
    unfolding missing by (auto simp: filter_empty_conv)
  have gap: "list_ex (\<lambda>index. index > 0) ?missing \<longleftrightarrow> (\<exists>i < ?n. 0 < i \<and> \<not> ?c i)"
    unfolding missing by (auto simp: list_ex_iff)
  show ?thesis
    using empty last gap nonempty unfolding unfold window_status_def by auto
qed

lemma complete_buckets_pre_reset:
  assumes "window_fits width cnt" "\<not> time_is_zero after" "window_slot now width cnt 0 < after"
  shows "complete_buckets m key now width cnt after = ([], BucketPreReset)"
  using assms by (auto simp: complete_buckets_def Let_def pre_reset_check window_fits_def)

lemma complete_buckets_missing:
  assumes "window_fits width cnt" "\<not> time_is_zero after \<longrightarrow> after \<le> window_slot now width cnt 0"
    "snapshot_samples m key = []"
  shows "complete_buckets m key now width cnt after = ([], BucketMissing)"
  using assms by (auto simp: complete_buckets_def Let_def pre_reset_check window_fits_def)

lemma window_status_complete: "window_status c cnt = BucketComplete \<longleftrightarrow> (\<forall>i < nat cnt. c i)"
  by (simp add: window_status_def)

lemma window_status_gapI:
  "\<not> covered j \<Longrightarrow> 0 < j \<Longrightarrow> j < nat cnt \<Longrightarrow> covered (nat cnt - 1) \<Longrightarrow> window_status covered cnt = BucketGap"
  by (auto simp: window_status_def)

lemma no_slot_covered:
  assumes "window_fits width cnt"
  shows "\<not> (\<forall>i < nat cnt. slot_covered [] now width cnt i)"
proof
  assume "\<forall>i < nat cnt. slot_covered [] now width cnt i"
  moreover have "0 < nat cnt" using assms by (simp add: window_fits_def)
  ultimately have "slot_covered [] now width cnt 0" by blast
  then show False by (simp add: slot_covered_def)
qed

lemma window_buckets_exact:
  assumes "series_ok xs" "window_fits width cnt" "\<forall>i < nat cnt. slot_covered xs now width cnt i"
  defines "bs \<equiv> List.map_filter id (map (bucket_at xs (window_oldest_start now width cnt) width) [0..<nat cnt])"
  shows "length bs = nat cnt"
    and "i < nat cnt \<Longrightarrow> bucketStart (bs ! i) = window_slot now width cnt i"
    and "i < nat cnt \<Longrightarrow> bucketEnd (bs ! i) = window_slot now width cnt i + width"
    and "i < nat cnt \<Longrightarrow> represents xs (window_slot now width cnt i) (window_slot now width cnt i + width) (bucketSample (bs ! i))"
proof -
  let ?f = "bucket_at xs (window_oldest_start now width cnt) width"
  have some: "\<forall>x \<in> set (map ?f [0..<nat cnt]). x \<noteq> None"
    using assms(1,2,3) by (auto simp: bucket_at_covered simp del: not_None_eq)
  have bs: "bs = map (the \<circ> ?f) [0..<nat cnt]"
    unfolding bs_def map_filter_all_Some [OF some] by simp
  then show "length bs = nat cnt" by simp
  assume i: "i < nat cnt"
  then have "bs ! i = the (?f i)" by (simp add: bs)
  moreover have "?f i \<noteq> None" using some i by simp
  then obtain b where b: "?f i = Some b" by auto
  moreover have "0 \<le> width" using assms(2) by (simp add: window_fits_def)
  moreover have "bucket_start (window_oldest_start now width cnt) width i = window_slot now width cnt i"
    using assms(2) i by (intro window_bucket_start) auto
  ultimately show "bucketStart (bs ! i) = window_slot now width cnt i"
    "bucketEnd (bs ! i) = window_slot now width cnt i + width"
    "represents xs (window_slot now width cnt i) (window_slot now width cnt i + width) (bucketSample (bs ! i))"
    using bucket_at_Some [OF assms(1) _ b] by simp_all
qed

section \<open>The contract of a snapshot\<close>

text \<open>
  What a policy relies on: the latest sample is the newest of the key's history; a complete
  window has one bucket per slot, each represented by its newest sample and none starting
  before the reset cutoff; and a window whose slots all hold samples after the cutoff is
  reported complete. \<open>after = 0\<close> is the zero time, no reset.
\<close>

locale window_source =
  fixes mk :: "'m \<Rightarrow> snapshot"
    and ok :: "'m \<Rightarrow> bool"
    and hist :: "'m \<Rightarrow> metric_key \<Rightarrow> sample list"
  assumes hist_ok: "ok m \<Longrightarrow> series_ok (hist m k)"
    and latest_law: "ok m \<Longrightarrow> Latest (mk m) k = latest_sample (hist m k)"
    and complete_law: "ok m \<Longrightarrow> window_fits w c \<Longrightarrow> CompleteBuckets (mk m) k now w c after = (bs, BucketComplete) \<Longrightarrow>
      length bs = nat c \<and> (after = 0 \<or> after \<le> window_slot now w c 0)
      \<and> (\<forall>i < nat c. bucketStart (bs ! i) = window_slot now w c i
          \<and> represents (hist m k) (window_slot now w c i) (window_slot now w c i + w) (bucketSample (bs ! i)))"
    and complete_iff: "ok m \<Longrightarrow> window_fits w c \<Longrightarrow>
      snd (CompleteBuckets (mk m) k now w c after) = BucketComplete \<longleftrightarrow>
        (after = 0 \<or> after \<le> window_slot now w c 0) \<and> (\<forall>i < nat c. slot_covered (hist m k) now w c i)"
begin

lemma latest_newest:
  assumes "ok m" "Latest (mk m) k = Some s"
  shows "s \<in> set (hist m k) \<and> (\<forall>x \<in> set (hist m k). observedAt x \<le> observedAt s)"
  using assms hist_ok [OF assms(1), of k]
  by (auto simp: latest_law latest_sample_last series_ok_last split: if_splits)

lemma latest_absent: "ok m \<Longrightarrow> Latest (mk m) k = None \<longleftrightarrow> hist m k = []"
  by (simp add: latest_law latest_sample_def)

text \<open>Every bucket of a complete window ends by now and starts after the cutoff.\<close>

lemma complete_bounds:
  assumes "ok m" "window_fits w c" "CompleteBuckets (mk m) k now w c after = (bs, BucketComplete)" "i < nat c"
  shows "bucketStart (bs ! i) + w \<le> now" "after = 0 \<or> after \<le> bucketStart (bs ! i)"
    "bucketStart (bs ! i) \<le> observedAt (bucketSample (bs ! i))" "observedAt (bucketSample (bs ! i)) < now"
proof -
  note law = complete_law [OF assms(1-3)]
  have w: "0 < w" using assms(2) by (simp add: window_fits_def)
  have le: "window_slot now w c i + w \<le> now" using w assms(4) by (intro window_slot_le) auto
  with law assms(4) show "bucketStart (bs ! i) + w \<le> now" by simp
  show "after = 0 \<or> after \<le> bucketStart (bs ! i)"
    using law assms(4) window_slot_mono [OF w, of 0 i now c] by fastforce
  show "bucketStart (bs ! i) \<le> observedAt (bucketSample (bs ! i))" "observedAt (bucketSample (bs ! i)) < now"
    using law assms(4) le by (auto simp: represents_def)
qed

text \<open>The values of a complete window are determined by the history.\<close>

lemma complete_unique:
  assumes "ok m" "window_fits w c" "CompleteBuckets (mk m) k now w c after = (bs, BucketComplete)" "i < nat c"
    "represents (hist m k) (window_slot now w c i) (window_slot now w c i + w) s"
  shows "bucketSample (bs ! i) = s"
  using complete_law [OF assms(1-3)] assms(4,5) represents_unique [OF hist_ok [OF assms(1)]] by blast

end

lemma snapshot_samples_ok [simp]: "series_map_ok m \<Longrightarrow> series_ok (snapshot_samples m key)"
  by (simp add: snapshot_samples_def Let_def)

lemma complete_buckets_complete_iff:
  assumes "series_map_ok m" "window_fits width cnt"
  shows "snd (complete_buckets m key now width cnt after) = BucketComplete \<longleftrightarrow>
    (after = 0 \<or> after \<le> window_slot now width cnt 0)
    \<and> (\<forall>i < nat cnt. slot_covered (snapshot_samples m key) now width cnt i)"
proof (cases "after = 0 \<or> after \<le> window_slot now width cnt 0")
  case False
  then show ?thesis using assms(2) by (simp add: complete_buckets_pre_reset time_is_zero_def)
next
  case True
  then have cut: "\<not> time_is_zero after \<longrightarrow> after \<le> window_slot now width cnt 0" by (auto simp: time_is_zero_def)
  show ?thesis
  proof (cases "snapshot_samples m key = []")
    case empty: True
    then show ?thesis
      using complete_buckets_missing [OF assms(2) cut empty] no_slot_covered [OF assms(2)] by simp
  next
    case False
    then show ?thesis
      using complete_buckets_checked [OF snapshot_samples_ok [OF assms(1)] assms(2) cut False] True
      by (simp add: window_status_complete)
  qed
qed

interpretation ms: window_source metric_snapshot series_map_ok snapshot_samples
proof unfold_locales
  fix m k assume m: "series_map_ok m"
  then show "series_ok (snapshot_samples m k)" by simp
  show "Latest (metric_snapshot m) k = latest_sample (snapshot_samples m k)"
    by (simp add: metric_snapshot_def snapshot_latest_def)
  fix w c now after assume w: "window_fits w c"
  show iff: "snd (CompleteBuckets (metric_snapshot m) k now w c after) = BucketComplete \<longleftrightarrow>
      (after = 0 \<or> after \<le> window_slot now w c 0) \<and> (\<forall>i < nat c. slot_covered (snapshot_samples m k) now w c i)"
    using complete_buckets_complete_iff [OF m w] by (simp add: metric_snapshot_def)
  fix bs assume bs: "CompleteBuckets (metric_snapshot m) k now w c after = (bs, BucketComplete)"
  then have cov: "after = 0 \<or> after \<le> window_slot now w c 0" "\<forall>i < nat c. slot_covered (snapshot_samples m k) now w c i"
    using iff by auto
  then have ne: "snapshot_samples m k \<noteq> []" using no_slot_covered [OF w] by metis
  have cut: "\<not> time_is_zero after \<longrightarrow> after \<le> window_slot now w c 0" using cov(1) by (auto simp: time_is_zero_def)
  have "bs = List.map_filter id (map (bucket_at (snapshot_samples m k) (window_oldest_start now w c) w) [0..<nat c])"
    using bs complete_buckets_checked [OF snapshot_samples_ok [OF m] w cut ne] by (simp add: metric_snapshot_def)
  then show "length bs = nat c \<and> (after = 0 \<or> after \<le> window_slot now w c 0)
      \<and> (\<forall>i < nat c. bucketStart (bs ! i) = window_slot now w c i
          \<and> represents (snapshot_samples m k) (window_slot now w c i) (window_slot now w c i + w) (bucketSample (bs ! i)))"
    using window_buckets_exact [OF snapshot_samples_ok [OF m] w cov(2)] cov(1) by blast
qed

section \<open>What the compatibility reads answer\<close>

lemma store_get_latest:
  assumes "store_ok s" "store_bounded s"
  shows "fst (store_get ro now name s) =
    (case latest_sample (series_of (series s) (MetricKey [] name)) of None \<Rightarrow> (Fin 0, False) | Some x \<Rightarrow> (sampleValue x, True))"
proof -
  have "snapshot_latest m (MetricKey [] name) = latest_sample (series_of m (MetricKey [] name))" for m
    by (simp add: snapshot_latest_def snapshot_samples_def Let_def)
  then show ?thesis
    using store_snapshot_latest [OF assms, of ro now "MetricKey [] name"]
    by (cases "store_snapshot ro now s") (simp add: store_get_def)
qed

lemma as_map_step_other:
  "s \<notin> key_string ` fst ` set xs \<Longrightarrow> map_of (foldl as_map_step acc xs) s = map_of acc s"
  by (induction xs arbitrary: acc) (auto simp: as_map_step_def update_conv' split: prod.splits)

lemma as_map_step_last:
  "distinct (map fst xs) \<Longrightarrow> inj_on key_string (fst ` set xs) \<Longrightarrow> (k, v) \<in> set xs \<Longrightarrow> v \<noteq> [] \<Longrightarrow>
   map_of (foldl as_map_step acc xs) (key_string k) = Some (sampleValue (last v))"
proof (induction xs arbitrary: acc)
  case (Cons kv xs)
  show ?case
  proof (cases "(k, v) \<in> set xs")
    case True
    with Cons show ?thesis by (simp add: inj_on_insert)
  next
    case False
    with Cons.prems have kv: "kv = (k, v)" by auto
    with Cons.prems have "key_string k \<notin> key_string ` fst ` set xs" by (auto simp: inj_on_def)
    then have "map_of (foldl as_map_step acc (kv # xs)) (key_string k) = map_of (as_map_step acc kv) (key_string k)"
      by (simp add: as_map_step_other)
    moreover have "as_map_step acc kv = AList.update (key_string k) (sampleValue (last v)) acc"
      using Cons.prems(4) by (simp add: kv as_map_step_def last_conv_nth)
    ultimately show ?thesis by (simp add: update_conv')
  qed
qed simp

text \<open>\<^verbatim>\<open>AsMap\<close> holds the latest value of every series, as long as no two keys have the same text.\<close>

lemma as_map_latest:
  assumes "store_ok s" "store_bounded s" "range_order ro" "inj_on key_string (fst ` set (series s))"
    and "k \<in> fst ` set (series s)"
  shows "map_of (fst (as_map ro now s)) (key_string k) = map_option sampleValue (latest_sample (series_of (series s) k))"
proof -
  let ?m = "fst (store_snapshot ro now s)"
  have keys: "map fst ?m = map fst (series s)"
    by (simp add: store_snapshot_idle [OF assms(1,2)] prune_series_def comp_def case_prod_beta)
  have ok: "series_map_ok ?m" using store_snapshot_ok [OF assms(1,3), of now] by (simp add: store_ok_def)
  have ro: "set (ro ?m) = set ?m" "distinct (map fst (ro ?m))"
  proof -
    show "set (ro ?m) = set ?m" using assms(3) by (rule range_order_set)
    have "mset (ro ?m) = mset ?m" using assms(3) by (simp add: range_order_def)
    then have "mset (map fst (ro ?m)) = mset (map fst ?m)" by (metis mset_map)
    moreover have "distinct (map fst ?m)" using ok by (simp add: series_map_ok_def)
    ultimately show "distinct (map fst (ro ?m))" using mset_eq_imp_distinct_iff by blast
  qed
  obtain v where v: "(k, v) \<in> set ?m" using assms(5) keys by (metis (no_types) imageE list.set_map prod.collapse)
  then have ne: "v \<noteq> []" and eq: "series_of ?m k = v"
    using ok series_of_eq by (auto simp: series_map_ok_def)
  have inj: "inj_on key_string (fst ` set (ro ?m))" using assms(4) keys ro(1) by (metis list.set_map)
  have "map_of (foldl as_map_step [] (ro ?m)) (key_string k) = Some (sampleValue (last v))"
    using as_map_step_last [OF ro(2) inj _ ne] v ro(1) by simp
  moreover have "latest_sample (series_of (series s) k) = Some (last v)"
    using store_snapshot_latest [OF assms(1,2), of ro now k] eq ne by (simp add: latest_sample_last)
  ultimately show ?thesis by (cases "store_snapshot ro now s") (simp add: as_map_def)
qed

section \<open>Properties\<close>

definition example_history :: "time list \<Rightarrow> series_map" where
  "example_history ts = [(MetricKey ''s'' ''q'', map (\<lambda>t. \<lparr>sampleValue = Fin (of_int t), observedAt = t\<rparr>) ts)]"

lemma example_history_ok:
  "sorted_wrt (<) (t # ts) \<Longrightarrow> 0 \<notin> set (t # ts) \<Longrightarrow> series_map_ok (example_history (t # ts))"
  by (auto simp: series_map_ok_def example_history_def series_ok_def sorted_wrt_map sample_ok_def
      f64_finite_def time_is_zero_def list_all_iff)

lemma example_history_samples:
  "snapshot_samples (example_history ts) (MetricKey ''s'' ''q'') = map (\<lambda>t. \<lparr>sampleValue = Fin (of_int t), observedAt = t\<rparr>) ts"
  by (cases ts) (simp_all add: snapshot_samples_def example_history_def series_of_def)



text \<open>The status of a window is classified exactly: pre-reset if the oldest slot starts before
  the cutoff, else missing if the key has no samples, else complete if every slot holds a
  sample, else stale if the newest slot is empty, else a gap if a slot other than the oldest is
  empty, else incomplete. So the late check for missing data is never taken.\<close>

theorem window_status_classified:
  assumes "series_map_ok m" "window_fits width cnt"
  shows "snd (complete_buckets m key now width cnt after) =
    (if after \<noteq> 0 \<and> time_truncate now width - cnt * width < after then BucketPreReset
     else if snapshot_samples m key = [] then BucketMissing
     else window_status (slot_covered (snapshot_samples m key) now width cnt) cnt)"
proof -
  have slot: "window_slot now width cnt 0 = time_truncate now width - cnt * width" by (simp add: window_slot_def)
  show ?thesis
    using complete_buckets_pre_reset [OF assms(2), of after now m key]
      complete_buckets_missing [OF assms(2), of after now m key]
      complete_buckets_checked [OF snapshot_samples_ok [OF assms(1)] assms(2), of after now key]
    unfolding slot time_is_zero_def by auto
qed

theorem window_status_classified_witness:
  "snd (complete_buckets (example_history [105, 125]) (MetricKey ''s'' ''q'') 131 10 3 0) = BucketGap"
proof -
  have m: "series_map_ok (example_history [105, 125])" by (rule example_history_ok) auto
  have w: "window_fits 10 3" by (simp add: window_fits_def)
  let ?c = "slot_covered (snapshot_samples (example_history [105, 125]) (MetricKey ''s'' ''q'')) 131 10 3"
  have "\<not> ?c 1" "?c 2"
    by (simp_all add: example_history_samples slot_covered_def window_slot_def time_truncate_def)
  then have "window_status ?c 3 = BucketGap"
    by (intro window_status_gapI [of _ 1]) simp_all
  then show ?thesis
    unfolding window_status_classified [OF m w] by (simp add: example_history_samples)
qed

text \<open>Contiguous data is reported as a gap: when a window's buckets are all there but for the
  two or more oldest ones, as happens while history fills up after a start, the completed
  buckets are contiguous, yet the status is "gap" and the reason says they are not.\<close>

theorem leading_absence_reported_as_gap:
  assumes "series_map_ok m" "window_fits width cnt" "after = 0"
    and "1 < k" "k < nat cnt"
    and "\<forall>i < nat cnt. slot_covered (snapshot_samples m key) now width cnt i \<longleftrightarrow> k \<le> i"
  shows "snd (complete_buckets m key now width cnt after) = BucketGap"
proof -
  let ?c = "slot_covered (snapshot_samples m key) now width cnt"
  have "?c (nat cnt - 1)" using assms(5,6) by simp
  then have ne: "snapshot_samples m key \<noteq> []" by (auto simp: slot_covered_def)
  have "\<not> ?c 1" using assms(4,5,6) by simp
  then have "window_status ?c cnt = BucketGap"
    using \<open>?c (nat cnt - 1)\<close> assms(4,5) by (intro window_status_gapI [of _ 1]) auto
  with ne assms(3) show ?thesis
    by (simp add: complete_buckets_checked [OF snapshot_samples_ok [OF assms(1)] assms(2)] time_is_zero_def)
qed

theorem leading_absence_reported_as_gap_witness:
  "snd (complete_buckets (example_history [125, 135]) (MetricKey ''s'' ''q'') 141 10 4 0) = BucketGap"
proof -
  have m: "series_map_ok (example_history [125, 135])" by (rule example_history_ok) auto
  have w: "window_fits 10 4" by (simp add: window_fits_def)
  have "\<forall>i < nat 4. slot_covered (snapshot_samples (example_history [125, 135]) (MetricKey ''s'' ''q'')) 141 10 4 i \<longleftrightarrow> 2 \<le> i"
    by (auto simp: example_history_samples slot_covered_def window_slot_def time_truncate_def less_Suc_eq eval_nat_numeral)
  then show ?thesis by (intro leading_absence_reported_as_gap [OF m w refl, of 2]) auto
qed

text \<open>Buckets are aligned to Go's zero time (year 1), not to the Unix epoch: a window's slots
  start at multiples of the width since the Unix epoch exactly if the width divides the
  distance between the two, which holds for 10 seconds and fails for 7 seconds.\<close>

theorem bucket_alignment:
  assumes "window_fits width cnt"
  shows "(width dvd window_oldest_start now width cnt - unix_epoch \<longleftrightarrow> width dvd unix_epoch)
    \<and> 10 * second dvd unix_epoch \<and> \<not> 7 * second dvd unix_epoch"
proof -
  have w: "0 < width" using assms by (simp add: window_fits_def)
  then have "width dvd time_truncate now width - cnt * width"
    using time_truncate_dvd by (intro dvd_diff) auto
  then have "width dvd window_oldest_start now width cnt" by (simp add: window_oldest_start_eq [OF assms])
  then have "width dvd window_oldest_start now width cnt - unix_epoch \<longleftrightarrow> width dvd unix_epoch"
    by (metis dvd_diff_right_iff)
  then show ?thesis by (simp add: second_def unix_epoch_def)
qed

theorem bucket_alignment_witness:
  "\<not> 7 * second dvd window_oldest_start 0 (7 * second) 2 - unix_epoch"
proof -
  have "window_fits (7 * second) 2" by (simp add: window_fits_def second_def)
  from bucket_alignment [OF this, of 0] show ?thesis by blast
qed

end
