(* ===== verification/Window_Policy.thy ===== *)
theory Window_Policy
  imports Metric_Snapshot
begin

text \<open>
  Scaling decisions and the window policy (\<^verbatim>\<open>internal/policy/policy.go\<close> and
  \<^verbatim>\<open>internal/policy/window.go\<close>). A policy looks at one snapshot at one evaluation time and
  gives an optional decision and one observation per direction it checked. The reason of a
  decision keeps the data its text is printed from.
\<close>

datatype reason =
    ReasonText string
  | ReasonNotBreached string string
  | ReasonBreach string string f64 int duration
  | ReasonExpr string int

record scale_decision =
  desiredCount :: int
  decisionReason :: reason

record window_evaluation =
  weService :: string
  weMetric :: string
  weDirection :: string
  weResult :: string
  weCompleteBuckets :: int

record evaluation =
  evDecision :: "scale_decision option"
  evWindows :: "window_evaluation list"

record window_threshold =
  thThreshold :: f64
  thSustainedFor :: duration
  thStep :: int

record window_policy =
  wpService :: string
  wpMetric :: string
  wpBucketDuration :: duration
  wpUpscale :: "window_threshold option"
  wpDownscale :: "window_threshold option"
  wpResetCutoff :: time

abbreviation UPSCALE :: string where
  "UPSCALE \<equiv> ''upscale''"

abbreviation DOWNSCALE :: string where
  "DOWNSCALE \<equiv> ''downscale''"

definition hold :: "string \<Rightarrow> int \<Rightarrow> reason \<Rightarrow> scale_decision option" where
  "hold direction current r =
     (if direction = DOWNSCALE then Some \<lparr>desiredCount = current, decisionReason = r\<rparr> else None)"

text \<open>One direction of a window: the decision, whether it is a breach, and the observation.
  The division by the bucket duration panics for a zero duration.\<close>

definition evaluate_direction ::
  "window_policy \<Rightarrow> snapshot \<Rightarrow> metric_key \<Rightarrow> time \<Rightarrow> time \<Rightarrow> int \<Rightarrow> string \<Rightarrow> window_threshold
   \<Rightarrow> (f64 \<Rightarrow> f64 \<Rightarrow> bool) \<Rightarrow> (scale_decision option \<times> bool \<times> window_evaluation) option" where
  "evaluate_direction w sn key now cutoff current direction threshold compare =
     do {
       required \<leftarrow> go_div (thSustainedFor threshold) (wpBucketDuration w);
       let (buckets, status) = CompleteBuckets sn key now (wpBucketDuration w) required cutoff;
       let observation = \<lparr>weService = wpService w, weMetric = wpMetric w, weDirection = direction,
             weResult = status_string status, weCompleteBuckets = int (length buckets)\<rparr>;
       Some
         (if status \<noteq> BucketComplete then
            (hold direction current (ReasonText (status_reason status required (int (length buckets)))),
             False, observation)
          else if \<not> list_all (\<lambda>b. compare (sampleValue (bucketSample b)) (thThreshold threshold)) buckets then
            (hold direction current (ReasonNotBreached (wpMetric w) direction),
             False, observation\<lparr>weResult := ''not_breaching''\<rparr>)
          else
            (Some
               \<lparr>desiredCount =
                  (if direction = DOWNSCALE then wrap64 (current - thStep threshold)
                   else wrap64 (current + thStep threshold)),
                decisionReason = ReasonBreach (wpMetric w) (if direction = DOWNSCALE then ''<'' else ''>'')
                  (thThreshold threshold) required (wpBucketDuration w)\<rparr>,
             True, observation\<lparr>weResult := ''breach''\<rparr>))
     }"

definition window_required_metrics :: "window_policy \<Rightarrow> string list" where
  "window_required_metrics w = [wpMetric w]"

definition window_evaluate :: "window_policy \<Rightarrow> int \<Rightarrow> snapshot \<Rightarrow> time \<Rightarrow> evaluation option" where
  "window_evaluate w current sn now =
     (let cutoff = wpResetCutoff w;
          key = MetricKey (wpService w) (wpMetric w);
          downscale = (\<lambda>windows. case wpDownscale w of
              None \<Rightarrow> Some \<lparr>evDecision = None, evWindows = windows\<rparr>
            | Some th \<Rightarrow> do {
                (decision, _, observation) \<leftarrow> evaluate_direction w sn key now cutoff current DOWNSCALE th f64_less;
                Some \<lparr>evDecision = decision, evWindows = windows @ [observation]\<rparr>
              })
      in case wpUpscale w of
           None \<Rightarrow> downscale []
         | Some th \<Rightarrow> do {
             (decision, breached, observation) \<leftarrow>
               evaluate_direction w sn key now cutoff current UPSCALE th (\<lambda>value threshold. f64_less threshold value);
             if breached then Some \<lparr>evDecision = decision, evWindows = [observation]\<rparr>
             else downscale [observation]
           })"

definition window_reset :: "window_policy \<Rightarrow> time \<Rightarrow> window_policy" where
  "window_reset w t = w\<lparr>wpResetCutoff := t\<rparr>"

section \<open>Configured windows\<close>

text \<open>What validation guarantees of a window: a positive bucket, and per direction a positive
  duration that is a multiple of the bucket and a positive step, all within 64 bits.\<close>

definition threshold_ok :: "duration \<Rightarrow> window_threshold \<Rightarrow> bool" where
  "threshold_ok width th \<longleftrightarrow> 0 < thSustainedFor th \<and> thSustainedFor th \<le> maxInt64
     \<and> width dvd thSustainedFor th \<and> 0 < thStep th \<and> thStep th \<le> maxInt64"

definition window_ok :: "window_policy \<Rightarrow> bool" where
  "window_ok w \<longleftrightarrow> 0 < wpBucketDuration w
     \<and> pred_option (threshold_ok (wpBucketDuration w)) (wpUpscale w)
     \<and> pred_option (threshold_ok (wpBucketDuration w)) (wpDownscale w)"

lemma window_reset_ok [simp]: "window_ok (window_reset w t) = window_ok w"
  by (simp add: window_ok_def window_reset_def)

lemma threshold_required:
  assumes "0 < width" "threshold_ok width th"
  shows "go_div (thSustainedFor th) width = Some (thSustainedFor th div width)"
    "window_fits width (thSustainedFor th div width)"
    "thSustainedFor th div width * width = thSustainedFor th"
proof -
  from assms have th: "0 < thSustainedFor th" "thSustainedFor th \<le> maxInt64" "width dvd thSustainedFor th"
    by (auto simp: threshold_ok_def)
  then show "go_div (thSustainedFor th) width = Some (thSustainedFor th div width)"
    using assms(1) by (intro go_div_pos) auto
  show exact: "thSustainedFor th div width * width = thSustainedFor th"
    using th(3) by simp
  have "0 < thSustainedFor th div width"
    using th assms(1) by (simp add: zdvd_imp_le pos_imp_zdiv_pos_iff)
  then show "window_fits width (thSustainedFor th div width)"
    using assms(1) th exact by (simp add: window_fits_def)
qed

section \<open>What a direction decides\<close>

text \<open>The condition a direction tests, stated over the history: every slot of the window starts
  after the cutoff and its newest sample satisfies the comparison.\<close>

definition sustained ::
  "(f64 \<Rightarrow> bool) \<Rightarrow> sample list \<Rightarrow> time \<Rightarrow> duration \<Rightarrow> int \<Rightarrow> time \<Rightarrow> bool" where
  "sustained p xs now width cnt cutoff \<longleftrightarrow>
     (cutoff = 0 \<or> cutoff \<le> window_slot now width cnt 0)
     \<and> (\<forall>i < nat cnt. \<exists>s. represents xs (window_slot now width cnt i) (window_slot now width cnt i + width) s
          \<and> p (sampleValue s))"

definition direction_holds ::
  "(f64 \<Rightarrow> f64 \<Rightarrow> bool) \<Rightarrow> window_policy \<Rightarrow> window_threshold \<Rightarrow> sample list \<Rightarrow> time \<Rightarrow> bool" where
  "direction_holds compare w th xs now \<longleftrightarrow>
     sustained (\<lambda>v. compare v (thThreshold th)) xs now (wpBucketDuration w)
       (thSustainedFor th div wpBucketDuration w) (wpResetCutoff w)"

lemma represents_covered:
  "represents xs (window_slot now width cnt i) (window_slot now width cnt i + width) s \<Longrightarrow> slot_covered xs now width cnt i"
  by (auto simp: represents_def slot_covered_def)

context window_source
begin

lemma direction_breach_iff:
  assumes "ok m" "0 < wpBucketDuration w" "threshold_ok (wpBucketDuration w) th"
  shows "(case CompleteBuckets (mk m) key now (wpBucketDuration w) (thSustainedFor th div wpBucketDuration w) cutoff of
      (buckets, status) \<Rightarrow> status = BucketComplete \<and> list_all (\<lambda>b. p (sampleValue (bucketSample b))) buckets)
    \<longleftrightarrow> sustained p (hist m key) now (wpBucketDuration w) (thSustainedFor th div wpBucketDuration w) cutoff"
proof -
  let ?w = "wpBucketDuration w" and ?c = "thSustainedFor th div wpBucketDuration w"
  obtain bs st where cb: "CompleteBuckets (mk m) key now ?w ?c cutoff = (bs, st)" by fastforce
  note fits = threshold_required(2) [OF assms(2,3)]
  note iff = complete_iff [OF assms(1) fits, of key now cutoff]
  show ?thesis
  proof (cases "st = BucketComplete")
    case False
    then have "\<not> ((cutoff = 0 \<or> cutoff \<le> window_slot now ?w ?c 0) \<and> (\<forall>i < nat ?c. slot_covered (hist m key) now ?w ?c i))"
      using iff cb by simp
    then have "\<not> sustained p (hist m key) now ?w ?c cutoff"
      unfolding sustained_def using represents_covered by metis
    with False cb show ?thesis by simp
  next
    case True
    note law = complete_law [OF assms(1) fits cb [unfolded True]]
    have "list_all (\<lambda>b. p (sampleValue (bucketSample b))) bs \<longleftrightarrow> (\<forall>i < nat ?c. p (sampleValue (bucketSample (bs ! i))))"
      using law by (simp add: list_all_length)
    also have "\<dots> \<longleftrightarrow> sustained p (hist m key) now ?w ?c cutoff"
      unfolding sustained_def using law represents_unique [OF hist_ok [OF assms(1)]] by metis
    finally show ?thesis using True cb by simp
  qed
qed

text \<open>The decision of one direction, by whether the condition holds.\<close>

lemma direction_decision:
  assumes "ok m" "0 < wpBucketDuration w" "threshold_ok (wpBucketDuration w) th"
  shows "\<exists>d obs. evaluate_direction w (mk m) key now (wpResetCutoff w) current dir th compare
      = Some (d, direction_holds compare w th (hist m key) now, obs)
    \<and> (if direction_holds compare w th (hist m key) now
       then \<exists>r. d = Some \<lparr>desiredCount =
          (if dir = DOWNSCALE then wrap64 (current - thStep th) else wrap64 (current + thStep th)), decisionReason = r\<rparr>
       else \<exists>r. d = hold dir current r)
    \<and> weDirection obs = dir \<and> (weResult obs = ''breach'' \<longleftrightarrow> direction_holds compare w th (hist m key) now)"
proof -
  let ?w = "wpBucketDuration w" and ?c = "thSustainedFor th div wpBucketDuration w"
  let ?p = "\<lambda>v. compare v (thThreshold th)"
  obtain bs st where cb: "CompleteBuckets (mk m) key now ?w ?c (wpResetCutoff w) = (bs, st)" by fastforce
  have cond: "direction_holds compare w th (hist m key) now
      \<longleftrightarrow> st = BucketComplete \<and> list_all (\<lambda>b. ?p (sampleValue (bucketSample b))) bs"
    using direction_breach_iff [OF assms(1-3), where key = key and now = now and cutoff = "wpResetCutoff w" and p = ?p] cb
    by (simp add: direction_holds_def)
  have st: "status_string st \<noteq> ''breach''" by (cases st) simp_all
  note eval = evaluate_direction_def threshold_required(1) [OF assms(2,3)] cb Let_def
  show ?thesis
  proof (cases "st = BucketComplete")
    case False
    then show ?thesis unfolding cond using st by (simp add: eval) blast
  next
    case True
    then show ?thesis unfolding cond
      by (cases "list_all (\<lambda>b. ?p (sampleValue (bucketSample b))) bs") (simp_all add: eval, blast)
  qed
qed

text \<open>The whole policy: upscale is tried first, and downscale only when it does not breach.\<close>

lemma window_decision:
  assumes "ok m" "window_ok w"
  defines "xs \<equiv> hist m (MetricKey (wpService w) (wpMetric w))"
  shows "\<exists>ev. window_evaluate w current (mk m) now = Some ev
    \<and> (case wpUpscale w of
         Some th \<Rightarrow> direction_holds (\<lambda>v t. f64_less t v) w th xs now \<longrightarrow>
           (\<exists>r. evDecision ev = Some \<lparr>desiredCount = wrap64 (current + thStep th), decisionReason = r\<rparr>)
       | None \<Rightarrow> True)
    \<and> ((case wpUpscale w of Some th \<Rightarrow> \<not> direction_holds (\<lambda>v t. f64_less t v) w th xs now | None \<Rightarrow> True) \<longrightarrow>
         (case wpDownscale w of
            None \<Rightarrow> evDecision ev = None
          | Some th \<Rightarrow> (\<exists>r. evDecision ev = Some
              \<lparr>desiredCount = (if direction_holds f64_less w th xs now then wrap64 (current - thStep th) else current),
               decisionReason = r\<rparr>)))"
proof -
  let ?k = "MetricKey (wpService w) (wpMetric w)"
  have w: "0 < wpBucketDuration w" using assms(2) by (simp add: window_ok_def)
  have th: "threshold_ok (wpBucketDuration w) t" if "wpUpscale w = Some t \<or> wpDownscale w = Some t" for t
    using that assms(2) by (auto simp: window_ok_def)
  note dir = direction_decision [OF assms(1) w th, of _ ?k now current]
  show ?thesis
  proof (cases "wpDownscale w")
    case None
    show ?thesis
    proof (cases "wpUpscale w")
      case upNone: None
      with None show ?thesis by (simp add: window_evaluate_def)
    next
      case (Some up)
      from dir [of up UPSCALE "\<lambda>v t. f64_less t v"] Some None show ?thesis
        by (auto simp: window_evaluate_def Let_def xs_def)
    qed
  next
    case down: (Some dn)
    obtain d obs where D: "evaluate_direction w (mk m) ?k now (wpResetCutoff w) current DOWNSCALE dn f64_less
        = Some (d, direction_holds f64_less w dn xs now, obs)"
      and d: "\<exists>r. d = Some \<lparr>desiredCount = (if direction_holds f64_less w dn xs now then wrap64 (current - thStep dn) else current),
               decisionReason = r\<rparr>"
      using dir [of dn DOWNSCALE f64_less] down by (auto simp: xs_def hold_def split: if_splits)
    show ?thesis
    proof (cases "wpUpscale w")
      case None
      with down D d show ?thesis by (auto simp: window_evaluate_def Let_def)
    next
      case (Some up)
      from dir [of up UPSCALE "\<lambda>v t. f64_less t v"] Some down D d show ?thesis
        by (auto simp: window_evaluate_def Let_def xs_def)
    qed
  qed
qed

lemma window_evaluate_total: "ok m \<Longrightarrow> window_ok w \<Longrightarrow> window_evaluate w current (mk m) now \<noteq> None"
  using window_decision by (metis option.distinct(1))

end

section \<open>Properties\<close>

text \<open>No overflow of the counts around the current one.\<close>

definition steps_fit :: "window_policy \<Rightarrow> int \<Rightarrow> bool" where
  "steps_fit w current \<longleftrightarrow> 0 \<le> current
     \<and> pred_option (\<lambda>th. current + thStep th \<le> maxInt64) (wpUpscale w) \<and> current \<le> maxInt64"

lemma steps_fit_wrap:
  assumes "window_ok w" "steps_fit w current"
  shows "wpUpscale w = Some th \<Longrightarrow> wrap64 (current + thStep th) = current + thStep th \<and> 0 < thStep th"
    and "wpDownscale w = Some th \<Longrightarrow> wrap64 (current - thStep th) = current - thStep th \<and> 0 < thStep th"
  using assms by (auto simp: window_ok_def steps_fit_def threshold_ok_def intro!: wrap64_id)

definition window_up :: "window_policy \<Rightarrow> sample list \<Rightarrow> time \<Rightarrow> bool" where
  "window_up w xs now \<longleftrightarrow> (\<exists>th. wpUpscale w = Some th \<and> direction_holds (\<lambda>v t. f64_less t v) w th xs now)"

definition window_down :: "window_policy \<Rightarrow> sample list \<Rightarrow> time \<Rightarrow> bool" where
  "window_down w xs now \<longleftrightarrow> (\<exists>th. wpDownscale w = Some th \<and> direction_holds f64_less w th xs now)"

lemma window_cases:
  assumes "series_map_ok m" "window_ok w" "steps_fit w current"
  defines "xs \<equiv> snapshot_samples m (MetricKey (wpService w) (wpMetric w))"
  shows "\<exists>ev. window_evaluate w current (metric_snapshot m) now = Some ev
    \<and> (if window_up w xs now
       then \<exists>th r. wpUpscale w = Some th \<and> evDecision ev = Some \<lparr>desiredCount = current + thStep th, decisionReason = r\<rparr>
       else if window_down w xs now
       then \<exists>th r. wpDownscale w = Some th \<and> evDecision ev = Some \<lparr>desiredCount = current - thStep th, decisionReason = r\<rparr>
       else if wpDownscale w = None then evDecision ev = None
       else \<exists>r. evDecision ev = Some \<lparr>desiredCount = current, decisionReason = r\<rparr>)"
proof -
  note up = steps_fit_wrap(1) [OF assms(2,3)] and dn = steps_fit_wrap(2) [OF assms(2,3)]
  from ms.window_decision [OF assms(1,2), of current now] obtain ev where
    ev: "window_evaluate w current (metric_snapshot m) now = Some ev"
    and d: "case wpUpscale w of
         Some th \<Rightarrow> direction_holds (\<lambda>v t. f64_less t v) w th xs now \<longrightarrow>
           (\<exists>r. evDecision ev = Some \<lparr>desiredCount = wrap64 (current + thStep th), decisionReason = r\<rparr>)
       | None \<Rightarrow> True"
      "(case wpUpscale w of Some th \<Rightarrow> \<not> direction_holds (\<lambda>v t. f64_less t v) w th xs now | None \<Rightarrow> True) \<longrightarrow>
         (case wpDownscale w of
            None \<Rightarrow> evDecision ev = None
          | Some th \<Rightarrow> (\<exists>r. evDecision ev = Some
              \<lparr>desiredCount = (if direction_holds f64_less w th xs now then wrap64 (current - thStep th) else current),
               decisionReason = r\<rparr>))"
    unfolding xs_def by blast
  show ?thesis
  proof (cases "window_up w xs now")
    case True
    then obtain th where "wpUpscale w = Some th" "direction_holds (\<lambda>v t. f64_less t v) w th xs now"
      by (auto simp: window_up_def)
    with ev d(1) up True show ?thesis by auto
  next
    case False
    then have "case wpUpscale w of Some th \<Rightarrow> \<not> direction_holds (\<lambda>v t. f64_less t v) w th xs now | None \<Rightarrow> True"
      by (auto simp: window_up_def split: option.splits)
    note down = d(2) [rule_format, OF this]
    show ?thesis
    proof (cases "wpDownscale w")
      case None
      with False ev down show ?thesis by (simp add: window_down_def)
    next
      case (Some th)
      with False ev down dn [OF Some] show ?thesis by (auto simp: window_down_def)
    qed
  qed
qed

definition example_window :: window_policy where
  "example_window = \<lparr>wpService = ''s'', wpMetric = ''q'', wpBucketDuration = 10,
     wpUpscale = Some \<lparr>thThreshold = Fin 100, thSustainedFor = 20, thStep = 2\<rparr>,
     wpDownscale = Some \<lparr>thThreshold = Fin 25, thSustainedFor = 20, thStep = 1\<rparr>, wpResetCutoff = 0\<rparr>"

lemma example_window_ok: "window_ok example_window" "steps_fit example_window 3"
  by (simp_all add: example_window_def window_ok_def threshold_ok_def steps_fit_def)

lemma sustained_two:
  assumes "represents xs (window_slot now width 2 0) (window_slot now width 2 0 + width) a" "p (sampleValue a)"
    and "represents xs (window_slot now width 2 1) (window_slot now width 2 1 + width) b" "p (sampleValue b)"
  shows "sustained p xs now width 2 0"
proof -
  have "\<exists>s. represents xs (window_slot now width 2 i) (window_slot now width 2 i + width) s \<and> p (sampleValue s)"
    if "i < nat 2" for i
  proof -
    from that consider "i = 0" | "i = 1" by fastforce
    then show ?thesis using assms by cases blast+
  qed
  then show ?thesis by (simp add: sustained_def)
qed

lemma example_window_up:
  "window_up example_window (snapshot_samples (example_history [105, 115]) (MetricKey ''s'' ''q'')) 121"
proof -
  have "sustained (f64_less (Fin 100)) (map (\<lambda>t. \<lparr>sampleValue = Fin (of_int t), observedAt = t\<rparr>) [105, 115]) 121 10 2 0"
    by (rule sustained_two [of _ _ _ "\<lparr>sampleValue = Fin 105, observedAt = 105\<rparr>" _ "\<lparr>sampleValue = Fin 115, observedAt = 115\<rparr>"])
       (simp_all add: represents_def window_slot_def time_truncate_def)
  then show ?thesis
    by (simp add: window_up_def direction_holds_def example_window_def example_history_samples)
qed

text \<open>C26. A window policy scales up exactly when it should: the decision exceeds the current count
  if and only if an upscale threshold is configured and each of the consecutive completed
  slots of its window starts after the last reset and has a newest sample strictly above the
  threshold; the decision is then the current count plus the step.\<close>

theorem window_scales_up_iff:
  assumes "series_map_ok m" "window_ok w" "steps_fit w current"
  shows "\<exists>ev. window_evaluate w current (metric_snapshot m) now = Some ev
    \<and> ((\<exists>d. evDecision ev = Some d \<and> current < desiredCount d) \<longleftrightarrow>
        window_up w (snapshot_samples m (MetricKey (wpService w) (wpMetric w))) now)
    \<and> (\<forall>d th. evDecision ev = Some d \<longrightarrow> current < desiredCount d \<longrightarrow> wpUpscale w = Some th \<longrightarrow>
        desiredCount d = current + thStep th)"
  using window_cases [OF assms, of now] steps_fit_wrap [OF assms(2,3)] by (fastforce split: if_splits)

theorem window_scales_up_iff_witness:
  "\<exists>ev d. window_evaluate example_window 3 (metric_snapshot (example_history [105, 115])) 121 = Some ev
    \<and> evDecision ev = Some d \<and> desiredCount d = 5"
proof -
  have "series_map_ok (example_history [105, 115])" by (rule example_history_ok) auto
  from window_scales_up_iff [OF this example_window_ok, of 121] example_window_up
  show ?thesis by (auto simp: example_window_def)
qed

text \<open>A window policy scales down exactly when its upscale condition fails, a downscale
  threshold is configured and each slot of its window starts after the last reset and has a
  newest sample strictly below the threshold; the decision is then the current count minus
  the step.\<close>

theorem window_scales_down_iff:
  assumes "series_map_ok m" "window_ok w" "steps_fit w current"
  defines "xs \<equiv> snapshot_samples m (MetricKey (wpService w) (wpMetric w))"
  shows "\<exists>ev. window_evaluate w current (metric_snapshot m) now = Some ev
    \<and> ((\<exists>d. evDecision ev = Some d \<and> desiredCount d < current) \<longleftrightarrow> \<not> window_up w xs now \<and> window_down w xs now)
    \<and> (\<forall>d th. evDecision ev = Some d \<longrightarrow> desiredCount d < current \<longrightarrow> wpDownscale w = Some th \<longrightarrow>
        desiredCount d = current - thStep th)"
  using window_cases [OF assms(1-3), of now] steps_fit_wrap [OF assms(2,3)] unfolding xs_def
  by (fastforce split: if_splits)

theorem window_scales_down_iff_witness:
  "\<exists>ev d. window_evaluate (example_window\<lparr>wpDownscale := Some \<lparr>thThreshold = Fin 99, thSustainedFor = 20, thStep = 1\<rparr>\<rparr>)
      3 (metric_snapshot (example_history [85, 95])) 101 = Some ev
    \<and> evDecision ev = Some d \<and> desiredCount d = 2"
proof -
  let ?w = "example_window\<lparr>wpDownscale := Some \<lparr>thThreshold = Fin 99, thSustainedFor = 20, thStep = 1\<rparr>\<rparr>"
  let ?m = "example_history [85, 95]"
  have m: "series_map_ok ?m" by (rule example_history_ok) auto
  have w: "window_ok ?w" "steps_fit ?w 3"
    by (simp_all add: example_window_def window_ok_def threshold_ok_def steps_fit_def)
  let ?xs = "map (\<lambda>t. \<lparr>sampleValue = Fin (of_int t), observedAt = t\<rparr>) [85, 95]"
  have "\<not> sustained (f64_less (Fin 100)) ?xs 101 10 2 0"
    unfolding sustained_def by (force simp: represents_def intro!: exI [of _ "0::nat"])
  then have "\<not> window_up ?w (snapshot_samples ?m (MetricKey ''s'' ''q'')) 101"
    by (simp add: window_up_def direction_holds_def example_window_def example_history_samples)
  moreover have "sustained (\<lambda>v. f64_less v (Fin 99)) ?xs 101 10 2 0"
    by (rule sustained_two [of _ _ _ "\<lparr>sampleValue = Fin 85, observedAt = 85\<rparr>" _ "\<lparr>sampleValue = Fin 95, observedAt = 95\<rparr>"])
       (simp_all add: represents_def window_slot_def time_truncate_def)
  then have "window_down ?w (snapshot_samples ?m (MetricKey ''s'' ''q'')) 101"
    by (simp add: window_down_def direction_holds_def example_window_def example_history_samples)
  ultimately show ?thesis
    using window_scales_down_iff [OF m w, of 101] by (auto simp: example_window_def)
qed

text \<open>C27. The window policy fails closed: if some slot of every configured window holds no sample,
  or starts before the last reset, the policy does not scale. It has no opinion without a
  downscale threshold and explicitly holds the current count with one.\<close>

theorem window_fails_closed:
  assumes "series_map_ok m" "window_ok w" "steps_fit w current"
  defines "xs \<equiv> snapshot_samples m (MetricKey (wpService w) (wpMetric w))"
  assumes unusable: "\<And>th. wpUpscale w = Some th \<or> wpDownscale w = Some th \<Longrightarrow>
      (wpResetCutoff w \<noteq> 0 \<and> window_slot now (wpBucketDuration w) (thSustainedFor th div wpBucketDuration w) 0 < wpResetCutoff w)
      \<or> (\<exists>i < nat (thSustainedFor th div wpBucketDuration w).
          \<not> slot_covered xs now (wpBucketDuration w) (thSustainedFor th div wpBucketDuration w) i)"
  shows "\<exists>ev. window_evaluate w current (metric_snapshot m) now = Some ev
    \<and> (case evDecision ev of None \<Rightarrow> wpDownscale w = None
       | Some d \<Rightarrow> wpDownscale w \<noteq> None \<and> desiredCount d = current)"
proof -
  have no: "\<not> direction_holds cmp w th xs now" if "wpUpscale w = Some th \<or> wpDownscale w = Some th" for cmp th
    using unusable [OF that] represents_covered unfolding direction_holds_def sustained_def
    by (meson not_less)
  then have "\<not> window_up w xs now" "\<not> window_down w xs now"
    by (auto simp: window_up_def window_down_def)
  with window_cases [OF assms(1-3), of now] show ?thesis
    unfolding xs_def by (auto split: if_splits)
qed

theorem window_fails_closed_witness:
  "\<exists>ev d. window_evaluate example_window 3 (metric_snapshot (example_history [105])) 121 = Some ev
    \<and> evDecision ev = Some d \<and> desiredCount d = 3"
proof -
  have m: "series_map_ok (example_history [105])" by (rule example_history_ok) auto
  have "\<not> slot_covered (snapshot_samples (example_history [105]) (MetricKey ''s'' ''q'')) 121 10 2 1"
    by (simp add: example_history_samples slot_covered_def window_slot_def time_truncate_def)
  then have "\<exists>ev. window_evaluate example_window 3 (metric_snapshot (example_history [105])) 121 = Some ev
    \<and> (case evDecision ev of None \<Rightarrow> wpDownscale example_window = None
       | Some d \<Rightarrow> wpDownscale example_window \<noteq> None \<and> desiredCount d = 3)"
    by (intro window_fails_closed [OF m example_window_ok] disjI2 exI [of _ 1])
       (auto simp: example_window_def)
  then show ?thesis by (auto simp: example_window_def split: option.splits)
qed

text \<open>After a scale event a policy cannot scale again before a whole fresh window has passed:
  once reset at a time t, it neither scales up nor down at any evaluation time earlier than t
  plus the sustained duration, whatever the history holds.\<close>

theorem reset_requires_fresh_window:
  assumes "series_map_ok m" "window_ok w" "steps_fit w current" "t \<noteq> 0"
    and early: "\<And>th. wpUpscale w = Some th \<or> wpDownscale w = Some th \<Longrightarrow> now < t + thSustainedFor th"
  shows "\<exists>ev. window_evaluate (window_reset w t) current (metric_snapshot m) now = Some ev
    \<and> (\<forall>d. evDecision ev = Some d \<longrightarrow> desiredCount d = current)"
proof -
  let ?w = "window_reset w t"
  let ?xs = "snapshot_samples m (MetricKey (wpService w) (wpMetric w))"
  have slot: "window_slot now (wpBucketDuration w) (thSustainedFor th div wpBucketDuration w) 0 < t"
    if th: "wpUpscale w = Some th \<or> wpDownscale w = Some th" for th
  proof -
    have "0 < wpBucketDuration w" "threshold_ok (wpBucketDuration w) th"
      using th assms(2) by (auto simp: window_ok_def)
    then have "thSustainedFor th div wpBucketDuration w * wpBucketDuration w = thSustainedFor th"
      by (rule threshold_required(3))
    then show ?thesis
      using early [OF th] time_truncate_le [of now "wpBucketDuration w"] by (simp add: window_slot_def)
  qed
  have "\<not> window_up ?w ?xs now" "\<not> window_down ?w ?xs now"
    using slot assms(4)
    by (auto simp: window_up_def window_down_def direction_holds_def sustained_def window_reset_def not_le)
  moreover have "steps_fit ?w current" using assms(3) by (simp add: steps_fit_def window_reset_def)
  moreover have "window_ok ?w" using assms(2) by simp
  moreover have "snapshot_samples m (MetricKey (wpService ?w) (wpMetric ?w)) = ?xs" by (simp add: window_reset_def)
  ultimately obtain ev where "window_evaluate ?w current (metric_snapshot m) now = Some ev"
    and "if wpDownscale ?w = None then evDecision ev = None
      else \<exists>r. evDecision ev = Some \<lparr>desiredCount = current, decisionReason = r\<rparr>"
    using window_cases [OF assms(1), of ?w current now] by auto
  then show ?thesis by (auto split: if_splits)
qed

theorem reset_requires_fresh_window_witness:
  "\<exists>ev. window_evaluate (window_reset example_window 110) 3 (metric_snapshot (example_history [105, 115])) 121 = Some ev
    \<and> (\<forall>d. evDecision ev = Some d \<longrightarrow> desiredCount d = 3)"
proof -
  have m: "series_map_ok (example_history [105, 115])" by (rule example_history_ok) auto
  show ?thesis
    by (rule reset_requires_fresh_window [OF m example_window_ok]) (auto simp: example_window_def)
qed

end
