(* ===== verification/Target_Policy.thy ===== *)
theory Target_Policy
  imports Window_Policy
begin

text \<open>
  The target policy (\<^verbatim>\<open>internal/policy/target.go\<close>) and the policy interface
  (\<^verbatim>\<open>internal/policy/policy.go\<close>). The expression engine (\<^verbatim>\<open>expr-lang/expr\<close>) is not part of
  the repository: its compiler and its evaluator are the fields of a record that every
  definition takes as an argument, together with the platform's conversion of doubles that do
  not fit an integer, which Go leaves open.
\<close>

record 'p expr_engine =
  exprCompile :: "string \<Rightarrow> (string \<rightharpoonup> f64) \<Rightarrow> string + 'p"
  exprRun :: "'p \<Rightarrow> (string \<rightharpoonup> f64) \<Rightarrow> string + f64"
  floatToInt :: "f64 \<Rightarrow> int"

datatype eval_error = MetricMissing string | ExprFailed string

record 'p target_policy =
  tpService :: string
  tpExpression :: string
  tpMetricNames :: "string list"
  tpProgram :: 'p

definition compile_env :: "string list \<Rightarrow> string \<rightharpoonup> f64" where
  "compile_env metricNames = (foldl (\<lambda>env name. env(name \<mapsto> Fin 0)) Map.empty metricNames)(''current'' \<mapsto> Fin 0)"

definition compile_expression :: "'p expr_engine \<Rightarrow> string \<Rightarrow> string list \<Rightarrow> string + 'p" where
  "compile_expression eng expression metricNames = exprCompile eng expression (compile_env metricNames)"

definition new_target_policy :: "'p expr_engine \<Rightarrow> string \<Rightarrow> string list \<Rightarrow> string + 'p target_policy" where
  "new_target_policy eng expression metricNames =
     (case compile_expression eng expression metricNames of
        Inl e \<Rightarrow> Inl e
      | Inr program \<Rightarrow> Inr \<lparr>tpService = [], tpExpression = expression, tpMetricNames = metricNames, tpProgram = program\<rparr>)"

fun target_env :: "snapshot \<Rightarrow> string \<Rightarrow> string list \<Rightarrow> (string \<rightharpoonup> f64) \<Rightarrow> eval_error + (string \<rightharpoonup> f64)" where
  "target_env sn service [] env = Inr env"
| "target_env sn service (name # names) env =
     (case Latest sn (MetricKey service name) of
        None \<Rightarrow> Inl (MetricMissing name)
      | Some s \<Rightarrow> target_env sn service names (env(name \<mapsto> sampleValue s)))"

definition target_evaluate ::
  "'p expr_engine \<Rightarrow> 'p target_policy \<Rightarrow> int \<Rightarrow> snapshot \<Rightarrow> time \<Rightarrow> eval_error + evaluation" where
  "target_evaluate eng t current sn now =
     (case target_env sn (tpService t) (tpMetricNames t) [''current'' \<mapsto> int_to_f64 current] of
        Inl e \<Rightarrow> Inl e
      | Inr env \<Rightarrow>
          (case exprRun eng (tpProgram t) env of
             Inl msg \<Rightarrow> Inl (ExprFailed msg)
           | Inr result \<Rightarrow>
               let n = f64_to_int (floatToInt eng) (f64_ceil result);
                   desired = (if n < 0 then 0 else n)
               in Inr \<lparr>evDecision = Some \<lparr>desiredCount = desired, decisionReason = ReasonExpr (tpExpression t) desired\<rparr>,
                       evWindows = []\<rparr>))"

definition target_required_metrics :: "'p target_policy \<Rightarrow> string list" where
  "target_required_metrics t = tpMetricNames t"

definition target_reset :: "'p target_policy \<Rightarrow> time \<Rightarrow> 'p target_policy" where
  "target_reset t at_time = t"

section \<open>The policy interface\<close>

datatype 'p policy = PWindow window_policy | PTarget "'p target_policy"

fun required_metrics :: "'p policy \<Rightarrow> string list" where
  "required_metrics (PWindow w) = window_required_metrics w"
| "required_metrics (PTarget t) = target_required_metrics t"

fun policy_evaluate ::
  "'p expr_engine \<Rightarrow> 'p policy \<Rightarrow> int \<Rightarrow> snapshot \<Rightarrow> time \<Rightarrow> (eval_error + evaluation) option" where
  "policy_evaluate eng (PWindow w) current sn now = map_option Inr (window_evaluate w current sn now)"
| "policy_evaluate eng (PTarget t) current sn now = Some (target_evaluate eng t current sn now)"

fun policy_reset :: "time \<Rightarrow> 'p policy \<Rightarrow> 'p policy" where
  "policy_reset t (PWindow w) = PWindow (window_reset w t)"
| "policy_reset t (PTarget p) = PTarget (target_reset p t)"

fun policy_ok :: "'p policy \<Rightarrow> bool" where
  "policy_ok (PWindow w) = window_ok w"
| "policy_ok (PTarget t) = True"

definition snapshot_ok :: "snapshot \<Rightarrow> bool" where
  "snapshot_ok sn \<longleftrightarrow> (\<exists>m. series_map_ok m \<and> sn = metric_snapshot m)"

text \<open>
  What the reconciler relies on: evaluating a well-configured policy on a snapshot never
  panics, and a reset changes neither what a policy reads nor whether it is well configured.
\<close>

locale policy_contract =
  fixes req :: "'q \<Rightarrow> string list"
    and evalp :: "'q \<Rightarrow> int \<Rightarrow> snapshot \<Rightarrow> time \<Rightarrow> (eval_error + evaluation) option"
    and rst :: "time \<Rightarrow> 'q \<Rightarrow> 'q"
    and good :: "'q \<Rightarrow> bool"
    and usable :: "snapshot \<Rightarrow> bool"
  assumes evalp_total: "good p \<Longrightarrow> usable sn \<Longrightarrow> evalp p current sn now \<noteq> None"
    and rst_good: "good (rst t p) \<longleftrightarrow> good p"
    and rst_req: "req (rst t p) = req p"
    and rst_last: "rst t (rst u p) = rst t p"
begin

lemma reset_all_good: "list_all good (map (rst t) ps) \<longleftrightarrow> list_all good ps"
  by (simp add: list_all_iff rst_good)

lemma reset_all_req: "map req (map (rst t) ps) = map req ps"
  by (simp add: rst_req)

lemma reset_all_last: "map (rst t) (map (rst u) ps) = map (rst t) ps"
  by (simp add: rst_last)

lemma evalp_all_total:
  "list_all good ps \<Longrightarrow> usable sn \<Longrightarrow> p \<in> set ps \<Longrightarrow> \<exists>r. evalp p current sn now = Some r"
  using evalp_total by (force simp: list_all_iff)

end

interpretation pol: policy_contract required_metrics "policy_evaluate eng" policy_reset policy_ok snapshot_ok
  for eng :: "'p expr_engine"
proof unfold_locales
  fix p :: "'p policy" and sn current now
  assume "policy_ok p" "snapshot_ok sn"
  then obtain m where "series_map_ok m" "sn = metric_snapshot m" by (auto simp: snapshot_ok_def)
  with \<open>policy_ok p\<close> show "policy_evaluate eng p current sn now \<noteq> None"
    using ms.window_evaluate_total [of m _ current now] by (cases p) (fastforce simp del: not_None_eq)+
next
  fix p :: "'p policy" and t u
  show "policy_ok (policy_reset t p) \<longleftrightarrow> policy_ok p" by (cases p) simp_all
  show "required_metrics (policy_reset t p) = required_metrics p"
    by (cases p) (simp_all add: window_required_metrics_def window_reset_def target_reset_def)
  show "policy_reset t (policy_reset u p) = policy_reset t p"
    by (cases p) (simp_all add: window_reset_def target_reset_def)
qed

section \<open>The environment of an expression\<close>

lemma target_env_missing:
  "find (\<lambda>n. Latest sn (MetricKey service n) = None) names = Some n \<Longrightarrow>
   target_env sn service names env = Inl (MetricMissing n)"
  by (induction names arbitrary: env) (auto split: option.splits if_splits)

lemma target_env_present:
  "\<forall>n \<in> set names. Latest sn (MetricKey service n) \<noteq> None \<Longrightarrow>
   target_env sn service names env =
     Inr (\<lambda>n. if n \<in> set names then map_option sampleValue (Latest sn (MetricKey service n)) else env n)"
proof (induction names arbitrary: env)
  case (Cons a names)
  then obtain s where "Latest sn (MetricKey service a) = Some s" by auto
  with Cons show ?case by (auto simp: fun_eq_iff)
qed simp

section \<open>Properties\<close>

text \<open>An engine for the witnesses: a program is a number to divide the metric \<open>q\<close> by.\<close>

definition example_engine :: "rat expr_engine" where
  "example_engine = \<lparr>exprCompile = (\<lambda>e env. if e = [] then Inl ''empty'' else Inr 10),
     exprRun = (\<lambda>p env. case env ''q'' of
        Some (Fin v) \<Rightarrow> Inr (if p = 0 then (if v = 0 then NaN else PInf) else Fin (v / p))
      | _ \<Rightarrow> Inl ''type''),
     floatToInt = (\<lambda>v. minInt64)\<rparr>"

definition example_target :: "rat target_policy" where
  "example_target = \<lparr>tpService = ''s'', tpExpression = ''ceil(q / 10)'', tpMetricNames = [''q''], tpProgram = 10\<rparr>"

text \<open>C28. A target policy computes the ceiling of its expression over the latest samples: with every
  bound metric present, the expression is run in the environment that maps each metric to the
  value of its latest sample, whatever its age, and \<open>current\<close> to the current count (unless a
  metric has that name); a finite result in range decides the ceiling, clamped at zero.\<close>

theorem target_decides_ceiling:
  assumes "\<forall>n \<in> set (tpMetricNames t). Latest sn (MetricKey (tpService t) n) \<noteq> None"
    and "exprRun eng (tpProgram t)
      (\<lambda>n. if n \<in> set (tpMetricNames t) then map_option sampleValue (Latest sn (MetricKey (tpService t) n))
           else if n = ''current'' then Some (int_to_f64 current) else None) = Inr (Fin r)"
    and "in_int64 \<lceil>r\<rceil>"
  shows "target_evaluate eng t current sn now =
    Inr \<lparr>evDecision = Some \<lparr>desiredCount = max 0 \<lceil>r\<rceil>, decisionReason = ReasonExpr (tpExpression t) (max 0 \<lceil>r\<rceil>)\<rparr>,
         evWindows = []\<rparr>"
proof -
  have env: "target_env sn (tpService t) (tpMetricNames t) [''current'' \<mapsto> int_to_f64 current] =
    Inr (\<lambda>n. if n \<in> set (tpMetricNames t) then map_option sampleValue (Latest sn (MetricKey (tpService t) n))
           else if n = ''current'' then Some (int_to_f64 current) else None)"
    unfolding target_env_present [OF assms(1)] by (rule arg_cong [of _ _ Inr]) (auto simp: fun_eq_iff)
  have "max 0 \<lceil>r\<rceil> = (if \<lceil>r\<rceil> < 0 then 0 else \<lceil>r\<rceil>)" by (simp add: max_def)
  with assms(3) show ?thesis
    by (simp add: target_evaluate_def env assms(2) Let_def)
qed

theorem target_decides_ceiling_witness:
  "target_evaluate example_engine example_target 2
     (metric_snapshot [(MetricKey ''s'' ''q'', [\<lparr>sampleValue = Fin 25, observedAt = 5\<rparr>])]) 100 =
   Inr \<lparr>evDecision = Some \<lparr>desiredCount = 3, decisionReason = ReasonExpr ''ceil(q / 10)'' 3\<rparr>, evWindows = []\<rparr>"
proof -
  have c: "\<lceil>5 / 2 :: rat\<rceil> = 3" by (rule ceiling_unique) auto
  have l: "Latest (metric_snapshot [(MetricKey ''s'' ''q'', [\<lparr>sampleValue = Fin 25, observedAt = 5\<rparr>])]) (MetricKey ''s'' ''q'')
      = Some \<lparr>sampleValue = Fin 25, observedAt = 5\<rparr>"
    by (simp add: metric_snapshot_def snapshot_latest_def snapshot_samples_def series_of_def latest_sample_def)
  show ?thesis
    by (subst target_decides_ceiling [where r = "25 / 10"])
       (simp_all add: example_target_def example_engine_def l c in_int64_def)
qed

text \<open>C29. A target policy gives no decision when a bound metric has no sample: it fails with the
  first missing metric in binding order, even if the expression does not mention it.\<close>

theorem target_missing_metric_is_error:
  assumes "find (\<lambda>n. Latest sn (MetricKey (tpService t) n) = None) (tpMetricNames t) = Some n"
  shows "target_evaluate eng t current sn now = Inl (MetricMissing n)"
  by (simp add: target_evaluate_def target_env_missing [OF assms])

theorem target_missing_metric_is_error_witness:
  "target_evaluate example_engine example_target 2 (metric_snapshot []) 100 = Inl (MetricMissing ''q'')"
proof -
  have "find (\<lambda>n. Latest (metric_snapshot []) (MetricKey (tpService example_target) n) = None)
      (tpMetricNames example_target) = Some ''q''"
    by (simp add: example_target_def metric_snapshot_def snapshot_latest_def snapshot_samples_def
        series_of_def latest_sample_def)
  then show ?thesis by (rule target_missing_metric_is_error)
qed

text \<open>A target decision is never negative and always fits 64 bits, for every engine, every
  platform and every snapshot.\<close>

theorem target_decision_range:
  assumes "target_evaluate eng t current sn now = Inr ev" "evDecision ev = Some d"
  shows "0 \<le> desiredCount d \<and> desiredCount d \<le> maxInt64"
proof -
  have conv: "f64_to_int oob v \<le> maxInt64" for oob v
    by (cases v) (auto simp: Let_def in_int64_def wrap64_range)
  from assms show ?thesis
    using conv by (auto simp: target_evaluate_def Let_def split: sum.splits if_splits)
qed

theorem target_decision_range_witness:
  "\<exists>ev d. target_evaluate example_engine example_target 2
      (metric_snapshot [(MetricKey ''s'' ''q'', [\<lparr>sampleValue = Fin (-25), observedAt = 5\<rparr>])]) 100 = Inr ev
    \<and> evDecision ev = Some d \<and> 0 \<le> desiredCount d"
proof -
  have l: "Latest (metric_snapshot [(MetricKey ''s'' ''q'', [\<lparr>sampleValue = Fin (-25), observedAt = 5\<rparr>])]) (MetricKey ''s'' ''q'')
      = Some \<lparr>sampleValue = Fin (-25), observedAt = 5\<rparr>"
    by (simp add: metric_snapshot_def snapshot_latest_def snapshot_samples_def series_of_def latest_sample_def)
  obtain ev d where "target_evaluate example_engine example_target 2
      (metric_snapshot [(MetricKey ''s'' ''q'', [\<lparr>sampleValue = Fin (-25), observedAt = 5\<rparr>])]) 100 = Inr ev" "evDecision ev = Some d"
    by (simp add: target_evaluate_def example_target_def example_engine_def l Let_def)
  with target_decision_range [OF this] show ?thesis by blast
qed

text \<open>An expression that evaluates to plus infinity asks for zero instances: on a platform whose
  out-of-range conversion yields the least 64-bit integer (amd64), an infinite or undefined
  result (a division by a zero-valued metric) is turned into the decision 0, a downscale, and
  not into an error.\<close>

theorem target_infinite_result_means_zero:
  assumes "target_env sn (tpService t) (tpMetricNames t) [''current'' \<mapsto> int_to_f64 current] = Inr env"
    and "exprRun eng (tpProgram t) env = Inr result" "result = PInf \<or> result = NaN"
    and "floatToInt eng result = minInt64"
  shows "target_evaluate eng t current sn now =
    Inr \<lparr>evDecision = Some \<lparr>desiredCount = 0, decisionReason = ReasonExpr (tpExpression t) 0\<rparr>, evWindows = []\<rparr>"
  using assms by (auto simp: target_evaluate_def Let_def wrap64_eq)

theorem target_infinite_result_means_zero_witness:
  "target_evaluate example_engine (example_target\<lparr>tpProgram := 0\<rparr>) 7
     (metric_snapshot [(MetricKey ''s'' ''q'', [\<lparr>sampleValue = Fin 5000, observedAt = 5\<rparr>])]) 100 =
   Inr \<lparr>evDecision = Some \<lparr>desiredCount = 0, decisionReason = ReasonExpr ''ceil(q / 10)'' 0\<rparr>, evWindows = []\<rparr>"
proof -
  let ?sn = "metric_snapshot [(MetricKey ''s'' ''q'', [\<lparr>sampleValue = Fin 5000, observedAt = 5\<rparr>])]"
  have l: "Latest ?sn (MetricKey ''s'' ''q'') = Some \<lparr>sampleValue = Fin 5000, observedAt = 5\<rparr>"
    by (simp add: metric_snapshot_def snapshot_latest_def snapshot_samples_def series_of_def latest_sample_def)
  show ?thesis
    by (subst target_infinite_result_means_zero
          [where env = "[''current'' \<mapsto> int_to_f64 7, ''q'' \<mapsto> Fin 5000]" and result = PInf])
       (simp_all add: example_target_def example_engine_def l)
qed

end
