(* ===== verification/Config.thy ===== *)
theory Config
  imports Schedule Target_Policy
begin

text \<open>
  The configuration (\<^verbatim>\<open>internal/config/config.go\<close>): its data, the defaults and the validation.
  A pointer that may be nil is an option; the pointers that \<^verbatim>\<open>applyDefaults\<close> sets to the
  addresses of the defaults are never written through, so they are copies here. Every error of
  the code is a constructor of \<open>config_error\<close>, and \<open>NilDereference\<close> is a panic. The yaml parser,
  the expression compiler and the time zone database are not part of the repository and are
  parameters. The lemmas give the defaults' effect and the exact set of accepted configurations.
\<close>

section \<open>Data\<close>

record cooldown_config =
  cdUpscale :: duration
  cdDownscale :: duration

record defaults_config =
  dfMinCount :: int
  dfMaxCount :: int
  dfCooldown :: cooldown_config

record otlp_config =
  otlpEnabled :: bool
  otlpGRPCPort :: int
  otlpHTTPPort :: int

record prometheus_config =
  pmName :: string
  pmAddress :: string
  pmBearerTokenFile :: string

record metrics_config =
  mcOTLP :: otlp_config
  mcPrometheus :: "prometheus_config list"

record ecs_config =
  ecsRegion :: string
  ecsCluster :: string

record adapter_config =
  adType :: string
  adECS :: ecs_config

record server_config =
  srvAddress :: string

record schedule_entry_config =
  seDays :: "string list"
  seStart :: string
  seEnd :: string
  seMinCount :: int
  seMaxCount :: int

record schedule_config =
  scTimezone :: string
  scEntries :: "schedule_entry_config list"

record metric_binding_config =
  mbcName :: string
  mbcSource :: string
  mbcQuery :: string
  mbcMetric :: string
  mbcAttributes :: "(string \<times> string) list"

record threshold_config =
  tcThreshold :: f64
  tcSustainedFor :: duration
  tcStep :: int

record policy_config =
  pcType :: string
  pcMetric :: string
  pcExpression :: string
  pcBucketDuration :: "duration option"
  pcUpscale :: "threshold_config option"
  pcDownscale :: "threshold_config option"

record service_config =
  svName :: string
  svIdentifier :: string
  svMinCount :: "int option"
  svMaxCount :: "int option"
  svCooldown :: "cooldown_config option"
  svSchedule :: "schedule_config option"
  svMetrics :: "metric_binding_config list"
  svPolicies :: "policy_config list"

record config =
  ReconcileInterval :: duration
  DryRun :: bool
  Defaults :: defaults_config
  Metrics :: metrics_config
  Adapter :: adapter_config
  Server :: server_config
  Services :: "service_config list"

datatype config_error =
    NilDereference
  | AdapterTypeRequired | UnknownAdapterType string | EcsRegionRequired | EcsClusterRequired
  | NoServices
  | PromNameRequired nat | PromAddressRequired nat | PromDuplicate string
  | SvcNameRequired nat | SvcDuplicateName nat string | SvcIdentifierRequired nat | SvcPolicyRequired nat
  | MinNegative nat | MinExceedsMax nat int int
  | MetricNameRequired nat nat | MetricDuplicate nat string | MetricRequired nat nat
  | AttributeKeyEmpty nat nat | UnknownSource nat nat string | QueryRequired nat nat
  | AttributesUnsupported nat nat
  | UnknownTimezone nat string | InvalidStart nat nat | InvalidEnd nat nat | InvalidDay nat nat string
  | PolicyMetricRequired nat nat | PolicyMetricUnbound nat nat string | BucketNotPositive nat nat
  | PolicyNeedsDirection nat nat | SustainedNotPositive nat nat string
  | SustainedNotMultiple nat nat string | StepNotPositive nat nat string
  | ExpressionRequired nat nat | InvalidExpression nat nat string | UnknownPolicyType nat nat string
  | CompileTargetFailed string string
  | ReadConfigFailed string | DecodeFailed | ParseYamlFailed string

section \<open>Defaults\<close>

definition default_policy :: "policy_config \<Rightarrow> policy_config" where
  "default_policy p =
     (if pcType p = ''window'' \<and> pcBucketDuration p = None then p\<lparr>pcBucketDuration := Some (10 * second)\<rparr> else p)"

definition default_service :: "defaults_config \<Rightarrow> service_config \<Rightarrow> service_config" where
  "default_service d svc =
     svc\<lparr>svMinCount := (case svMinCount svc of None \<Rightarrow> Some (dfMinCount d) | Some v \<Rightarrow> Some v),
         svMaxCount := (case svMaxCount svc of None \<Rightarrow> Some (dfMaxCount d) | Some v \<Rightarrow> Some v),
         svCooldown := (case svCooldown svc of None \<Rightarrow> Some (dfCooldown d) | Some v \<Rightarrow> Some v),
         svPolicies := map default_policy (svPolicies svc)\<rparr>"

definition default_defaults :: "defaults_config \<Rightarrow> defaults_config" where
  "default_defaults d =
     \<lparr>dfMinCount = (if dfMinCount d = 0 then 1 else dfMinCount d),
      dfMaxCount = (if dfMaxCount d = 0 then 10 else dfMaxCount d),
      dfCooldown =
        \<lparr>cdUpscale = (if cdUpscale (dfCooldown d) = 0 then 60 * second else cdUpscale (dfCooldown d)),
         cdDownscale = (if cdDownscale (dfCooldown d) = 0 then 600 * second else cdDownscale (dfCooldown d))\<rparr>\<rparr>"

definition apply_defaults :: "config \<Rightarrow> config" where
  "apply_defaults cfg =
     (let d = default_defaults (Defaults cfg);
          o1 = mcOTLP (Metrics cfg);
          o2 = o1\<lparr>otlpGRPCPort := (if otlpGRPCPort o1 = 0 then 4317 else otlpGRPCPort o1),
                  otlpHTTPPort := (if otlpHTTPPort o1 = 0 then 4318 else otlpHTTPPort o1)\<rparr>
      in cfg\<lparr>ReconcileInterval := (if ReconcileInterval cfg = 0 then 10 * second else ReconcileInterval cfg),
             Defaults := d,
             Server := (if srvAddress (Server cfg) = '''' then (Server cfg)\<lparr>srvAddress := '':8080''\<rparr> else Server cfg),
             Metrics := (Metrics cfg)\<lparr>mcOTLP := o2\<rparr>,
             Services := map (default_service d) (Services cfg)\<rparr>)"

section \<open>Validation\<close>

text \<open>\<open>None\<close> is the nil error. A sequence of checks returns its first error.\<close>

definition check :: "bool \<Rightarrow> config_error \<Rightarrow> config_error option" where
  "check bad e = (if bad then Some e else None)"

fun first_error :: "config_error option list \<Rightarrow> config_error option" where
  "first_error [] = None"
| "first_error (None # es) = first_error es"
| "first_error (Some e # es) = Some e"

fun each :: "(nat \<Rightarrow> 'a \<Rightarrow> config_error option) \<Rightarrow> nat \<Rightarrow> 'a list \<Rightarrow> config_error option" where
  "each f i [] = None"
| "each f i (x # xs) = (case f i x of Some e \<Rightarrow> Some e | None \<Rightarrow> each f (Suc i) xs)"

definition validate_adapter :: "adapter_config \<Rightarrow> config_error option" where
  "validate_adapter a =
     first_error
       [check (adType a = '''') AdapterTypeRequired,
        check (adType a \<noteq> ''ecs'' \<and> adType a \<noteq> ''memory'') (UnknownAdapterType (adType a)),
        check (adType a = ''ecs'' \<and> ecsRegion (adECS a) = '''') EcsRegionRequired,
        check (adType a = ''ecs'' \<and> ecsCluster (adECS a) = '''') EcsClusterRequired]"

fun validate_prometheus :: "nat \<Rightarrow> string set \<Rightarrow> prometheus_config list \<Rightarrow> config_error option" where
  "validate_prometheus i promSources [] = None"
| "validate_prometheus i promSources (pc # pcs) =
     (if pmName pc = '''' then Some (PromNameRequired i)
      else if pmAddress pc = '''' then Some (PromAddressRequired i)
      else if pmName pc \<in> promSources then Some (PromDuplicate (pmName pc))
      else validate_prometheus (Suc i) (insert (pmName pc) promSources) pcs)"

definition validate_source :: "string set \<Rightarrow> nat \<Rightarrow> nat \<Rightarrow> metric_binding_config \<Rightarrow> config_error option" where
  "validate_source promSources i j m =
     (if mbcSource m = ''otlp'' then
        first_error
          [check (mbcMetric m = '''') (MetricRequired i j),
           check (list_ex (\<lambda>(key, _). key = '''') (mbcAttributes m)) (AttributeKeyEmpty i j)]
      else if has_prefix (mbcSource m) ''prometheus.'' then
        let srcName = trim_prefix (mbcSource m) ''prometheus.'' in
        first_error
          [check (srcName = '''' \<or> srcName \<notin> promSources) (UnknownSource i j (mbcSource m)),
           check (trim_space (mbcQuery m) = '''') (QueryRequired i j),
           check (0 < length (mbcAttributes m)) (AttributesUnsupported i j)]
      else Some (UnknownSource i j (mbcSource m)))"

fun validate_metrics :: "string set \<Rightarrow> nat \<Rightarrow> nat \<Rightarrow> string set \<Rightarrow> metric_binding_config list \<Rightarrow> config_error option" where
  "validate_metrics promSources i j metricSet [] = None"
| "validate_metrics promSources i j metricSet (m # ms) =
     (if mbcName m = '''' then Some (MetricNameRequired i j)
      else if mbcName m \<in> metricSet then Some (MetricDuplicate i (mbcName m))
      else (case validate_source promSources i j m of
              Some e \<Rightarrow> Some e
            | None \<Rightarrow> validate_metrics promSources i (Suc j) (insert (mbcName m) metricSet) ms))"

text \<open>The two maps of day names; a missing key reads as Sunday, the zero weekday.\<close>

definition day_map :: "(string \<times> weekday) list" where
  "day_map = [(''sun'', Sunday), (''mon'', Monday), (''tue'', Tuesday), (''wed'', Wednesday),
     (''thu'', Thursday), (''fri'', Friday), (''sat'', Saturday)]"

definition validate_entry :: "nat \<Rightarrow> nat \<Rightarrow> schedule_entry_config \<Rightarrow> config_error option" where
  "validate_entry i j entry =
     first_error
       [check (\<not> hhmm (seStart entry)) (InvalidStart i j),
        check (\<not> hhmm (seEnd entry)) (InvalidEnd i j),
        each (\<lambda>_ d. check (map_of day_map d = None) (InvalidDay i j d)) 0 (seDays entry)]"

definition validate_schedule ::
  "(string \<Rightarrow> location option) \<Rightarrow> nat \<Rightarrow> schedule_config option \<Rightarrow> config_error option" where
  "validate_schedule tzdb i s =
     (case s of
        None \<Rightarrow> None
      | Some sc \<Rightarrow>
          first_error
            [check (scTimezone sc \<noteq> '''' \<and> load_location tzdb (scTimezone sc) = None) (UnknownTimezone i (scTimezone sc)),
             each (validate_entry i) 0 (scEntries sc)])"

definition validate_threshold ::
  "nat \<Rightarrow> nat \<Rightarrow> duration \<Rightarrow> string \<Rightarrow> threshold_config \<Rightarrow> config_error option" where
  "validate_threshold i j width direction threshold =
     (if tcSustainedFor threshold \<le> 0 then Some (SustainedNotPositive i j direction)
      else (case go_rem (tcSustainedFor threshold) width of
              None \<Rightarrow> Some NilDereference
            | Some r \<Rightarrow>
                if r \<noteq> 0 then Some (SustainedNotMultiple i j direction)
                else if tcStep threshold \<le> 0 then Some (StepNotPositive i j direction)
                else None))"

type_synonym threshold_order = "(string \<times> threshold_config option) list \<Rightarrow> (string \<times> threshold_config option) list"

definition validate_window ::
  "threshold_order \<Rightarrow> string set \<Rightarrow> nat \<Rightarrow> nat \<Rightarrow> policy_config \<Rightarrow> config_error option" where
  "validate_window ro metricSet i j p =
     (if pcMetric p = '''' then Some (PolicyMetricRequired i j)
      else if pcMetric p \<notin> metricSet then Some (PolicyMetricUnbound i j (pcMetric p))
      else (case pcBucketDuration p of
              None \<Rightarrow> Some (BucketNotPositive i j)
            | Some width \<Rightarrow>
                if width \<le> 0 then Some (BucketNotPositive i j)
                else if pcUpscale p = None \<and> pcDownscale p = None then Some (PolicyNeedsDirection i j)
                else each (\<lambda>_ (direction, threshold).
                       (case threshold of None \<Rightarrow> None | Some th \<Rightarrow> validate_threshold i j width direction th)) 0
                     (ro [(UPSCALE, pcUpscale p), (DOWNSCALE, pcDownscale p)])))"

definition validate_policy ::
  "threshold_order \<Rightarrow> 'p expr_engine \<Rightarrow> string list \<Rightarrow> nat \<Rightarrow> nat \<Rightarrow> policy_config \<Rightarrow> config_error option" where
  "validate_policy ro eng metricNames i j p =
     (if pcType p = ''window'' then validate_window ro (set metricNames) i j p
      else if pcType p = ''target'' then
        (if pcExpression p = '''' then Some (ExpressionRequired i j)
         else (case compile_expression eng (pcExpression p) metricNames of
                 Inl e \<Rightarrow> Some (InvalidExpression i j e)
               | Inr _ \<Rightarrow> None))
      else Some (UnknownPolicyType i j (pcType p)))"

definition validate_counts :: "nat \<Rightarrow> service_config \<Rightarrow> config_error option" where
  "validate_counts i svc =
     (case svMinCount svc of
        None \<Rightarrow> Some NilDereference
      | Some mn \<Rightarrow>
          if mn < 0 then Some (MinNegative i)
          else (case svMaxCount svc of
                  None \<Rightarrow> Some NilDereference
                | Some mx \<Rightarrow> check (mn > mx) (MinExceedsMax i mn mx)))"

definition validate_service ::
  "threshold_order \<Rightarrow> (string \<Rightarrow> location option) \<Rightarrow> 'p expr_engine \<Rightarrow> string set \<Rightarrow> nat \<Rightarrow> service_config
   \<Rightarrow> config_error option" where
  "validate_service ro tzdb eng promSources i svc =
     first_error
       [check (svIdentifier svc = '''') (SvcIdentifierRequired i),
        check (svPolicies svc = []) (SvcPolicyRequired i),
        validate_counts i svc,
        validate_metrics promSources i 0 {} (svMetrics svc),
        validate_schedule tzdb i (svSchedule svc),
        each (validate_policy ro eng (map mbcName (svMetrics svc)) i) 0 (svPolicies svc)]"

fun validate_services ::
  "threshold_order \<Rightarrow> (string \<Rightarrow> location option) \<Rightarrow> 'p expr_engine \<Rightarrow> string set \<Rightarrow> nat \<Rightarrow> string set
   \<Rightarrow> service_config list \<Rightarrow> config_error option" where
  "validate_services ro tzdb eng promSources i serviceNames [] = None"
| "validate_services ro tzdb eng promSources i serviceNames (svc # svcs) =
     (if svName svc = '''' then Some (SvcNameRequired i)
      else if svName svc \<in> serviceNames then Some (SvcDuplicateName i (svName svc))
      else (case validate_service ro tzdb eng promSources i svc of
              Some e \<Rightarrow> Some e
            | None \<Rightarrow> validate_services ro tzdb eng promSources (Suc i) (insert (svName svc) serviceNames) svcs))"

definition validate ::
  "threshold_order \<Rightarrow> (string \<Rightarrow> location option) \<Rightarrow> 'p expr_engine \<Rightarrow> config \<Rightarrow> config_error option" where
  "validate ro tzdb eng cfg =
     first_error
       [validate_adapter (Adapter cfg),
        check (Services cfg = []) NoServices,
        validate_prometheus 0 {} (mcPrometheus (Metrics cfg)),
        validate_services ro tzdb eng (pmName ` set (mcPrometheus (Metrics cfg))) 0 {} (Services cfg)]"

section \<open>The accepted configurations\<close>

lemma check_None [simp]: "check bad e = None \<longleftrightarrow> \<not> bad"
  by (simp add: check_def)

lemma first_error_None [simp]: "first_error es = None \<longleftrightarrow> list_all (\<lambda>e. e = None) es"
  by (induction es rule: first_error.induct) auto

lemma each_None: "(\<And>i x. f i x = None \<longleftrightarrow> P x) \<Longrightarrow> each f i xs = None \<longleftrightarrow> list_all P xs"
proof (induction xs arbitrary: i)
  case (Cons x xs)
  from Cons.prems have "f i x = None \<longleftrightarrow> P x" .
  with Cons.IH [OF Cons.prems] show ?case by (cases "f i x") auto
qed simp

definition adapter_config_ok :: "adapter_config \<Rightarrow> bool" where
  "adapter_config_ok a \<longleftrightarrow> adType a = ''memory''
     \<or> (adType a = ''ecs'' \<and> ecsRegion (adECS a) \<noteq> '''' \<and> ecsCluster (adECS a) \<noteq> '''')"

definition prometheus_ok :: "prometheus_config list \<Rightarrow> bool" where
  "prometheus_ok pcs \<longleftrightarrow> distinct (map pmName pcs) \<and> list_all (\<lambda>pc. pmName pc \<noteq> '''' \<and> pmAddress pc \<noteq> '''') pcs"

definition source_ok :: "string set \<Rightarrow> metric_binding_config \<Rightarrow> bool" where
  "source_ok promSources m \<longleftrightarrow>
     (mbcSource m = ''otlp'' \<and> mbcMetric m \<noteq> '''' \<and> '''' \<notin> fst ` set (mbcAttributes m))
     \<or> (\<exists>src. mbcSource m = ''prometheus.'' @ src \<and> src \<noteq> '''' \<and> src \<in> promSources
          \<and> (\<exists>c \<in> set (mbcQuery m). \<not> is_space c) \<and> mbcAttributes m = [])"

definition bindings_ok :: "string set \<Rightarrow> metric_binding_config list \<Rightarrow> bool" where
  "bindings_ok promSources ms \<longleftrightarrow> distinct (map mbcName ms)
     \<and> list_all (\<lambda>m. mbcName m \<noteq> '''' \<and> source_ok promSources m) ms"

definition entry_config_ok :: "schedule_entry_config \<Rightarrow> bool" where
  "entry_config_ok e \<longleftrightarrow> hhmm (seStart e) \<and> hhmm (seEnd e) \<and> set (seDays e) \<subseteq> fst ` set day_map"

definition schedule_config_ok :: "(string \<Rightarrow> location option) \<Rightarrow> schedule_config \<Rightarrow> bool" where
  "schedule_config_ok tzdb sc \<longleftrightarrow>
     load_location tzdb (scTimezone sc) \<noteq> None \<and> list_all entry_config_ok (scEntries sc)"

definition threshold_config_ok :: "duration \<Rightarrow> threshold_config \<Rightarrow> bool" where
  "threshold_config_ok width th \<longleftrightarrow> 0 < tcSustainedFor th \<and> width dvd tcSustainedFor th \<and> 0 < tcStep th"

definition window_config_ok :: "string set \<Rightarrow> policy_config \<Rightarrow> bool" where
  "window_config_ok names p \<longleftrightarrow> pcMetric p \<noteq> '''' \<and> pcMetric p \<in> names
     \<and> (\<exists>width. pcBucketDuration p = Some width \<and> 0 < width
          \<and> (pcUpscale p \<noteq> None \<or> pcDownscale p \<noteq> None)
          \<and> pred_option (threshold_config_ok width) (pcUpscale p)
          \<and> pred_option (threshold_config_ok width) (pcDownscale p))"

definition target_config_ok :: "'p expr_engine \<Rightarrow> string list \<Rightarrow> policy_config \<Rightarrow> bool" where
  "target_config_ok eng names p \<longleftrightarrow> pcExpression p \<noteq> ''''
     \<and> (\<exists>program. compile_expression eng (pcExpression p) names = Inr program)"

definition policy_config_ok :: "'p expr_engine \<Rightarrow> string list \<Rightarrow> policy_config \<Rightarrow> bool" where
  "policy_config_ok eng names p \<longleftrightarrow>
     (pcType p = ''window'' \<and> window_config_ok (set names) p) \<or> (pcType p = ''target'' \<and> target_config_ok eng names p)"

definition service_config_ok ::
  "(string \<Rightarrow> location option) \<Rightarrow> 'p expr_engine \<Rightarrow> string set \<Rightarrow> service_config \<Rightarrow> bool" where
  "service_config_ok tzdb eng promSources svc \<longleftrightarrow>
     svIdentifier svc \<noteq> '''' \<and> svPolicies svc \<noteq> []
     \<and> (\<exists>mn mx. svMinCount svc = Some mn \<and> svMaxCount svc = Some mx \<and> 0 \<le> mn \<and> mn \<le> mx)
     \<and> bindings_ok promSources (svMetrics svc)
     \<and> pred_option (schedule_config_ok tzdb) (svSchedule svc)
     \<and> list_all (policy_config_ok eng (map mbcName (svMetrics svc))) (svPolicies svc)"

definition config_ok :: "(string \<Rightarrow> location option) \<Rightarrow> 'p expr_engine \<Rightarrow> config \<Rightarrow> bool" where
  "config_ok tzdb eng cfg \<longleftrightarrow>
     adapter_config_ok (Adapter cfg) \<and> Services cfg \<noteq> [] \<and> prometheus_ok (mcPrometheus (Metrics cfg))
     \<and> distinct (map svName (Services cfg)) \<and> '''' \<notin> svName ` set (Services cfg)
     \<and> list_all (service_config_ok tzdb eng (pmName ` set (mcPrometheus (Metrics cfg)))) (Services cfg)"

lemma validate_adapter_iff: "validate_adapter a = None \<longleftrightarrow> adapter_config_ok a"
  by (auto simp: validate_adapter_def adapter_config_ok_def)

lemma validate_prometheus_iff:
  "validate_prometheus i seen pcs = None \<longleftrightarrow> prometheus_ok pcs \<and> pmName ` set pcs \<inter> seen = {}"
  by (induction i seen pcs rule: validate_prometheus.induct) (auto simp: prometheus_ok_def)

lemma not_otlp_prefix: "has_prefix s ''prometheus.'' \<Longrightarrow> s \<noteq> ''otlp''"
  by (auto simp: has_prefix_def)

lemma validate_source_iff: "validate_source promSources i j m = None \<longleftrightarrow> source_ok promSources m"
proof (cases "mbcSource m = ''otlp''")
  case True
  then show ?thesis
    by (force simp: validate_source_def source_ok_def list_ex_iff)
next
  case no: False
  show ?thesis
  proof (cases "has_prefix (mbcSource m) ''prometheus.''")
    case True
    then have s: "mbcSource m = ''prometheus.'' @ trim_prefix (mbcSource m) ''prometheus.''"
      by (rule has_prefixD)
    have "(\<exists>src. mbcSource m = ''prometheus.'' @ src \<and> P src) \<longleftrightarrow> P (trim_prefix (mbcSource m) ''prometheus.'')" for P
      using s by (metis same_append_eq)
    with no True show ?thesis
      by (auto simp: validate_source_def source_ok_def Let_def trim_space_empty_iff)
  next
    case False
    then have "\<nexists>src. mbcSource m = ''prometheus.'' @ src" using has_prefix_append by metis
    with no False show ?thesis by (auto simp: validate_source_def source_ok_def)
  qed
qed

lemma validate_metrics_iff:
  "validate_metrics promSources i j seen ms = None \<longleftrightarrow> bindings_ok promSources ms \<and> mbcName ` set ms \<inter> seen = {}"
proof (induction promSources i j seen ms rule: validate_metrics.induct)
  case (2 promSources i j seen m ms)
  show ?case
    using 2 validate_source_iff [of promSources i j m]
    by (auto simp: bindings_ok_def split: option.splits)
qed (simp add: bindings_ok_def)

lemma validate_entry_iff: "validate_entry i j e = None \<longleftrightarrow> entry_config_ok e"
proof -
  have "each (\<lambda>_ d. check (map_of day_map d = None) (InvalidDay i j d)) 0 (seDays e) = None
      \<longleftrightarrow> list_all (\<lambda>d. d \<in> fst ` set day_map) (seDays e)"
    by (rule each_None) (simp add: map_of_eq_None_iff)
  then show ?thesis by (auto simp: validate_entry_def entry_config_ok_def list_all_iff)
qed

lemma validate_schedule_iff: "validate_schedule tzdb i s = None \<longleftrightarrow> pred_option (schedule_config_ok tzdb) s"
proof (cases s)
  case (Some sc)
  have "each (validate_entry i) 0 (scEntries sc) = None \<longleftrightarrow> list_all entry_config_ok (scEntries sc)"
    by (rule each_None) (rule validate_entry_iff)
  with Some show ?thesis
    by (auto simp: validate_schedule_def schedule_config_ok_def load_location_def)
qed (simp add: validate_schedule_def)

lemma validate_threshold_iff:
  "0 < width \<Longrightarrow> validate_threshold i j width direction th = None \<longleftrightarrow> threshold_config_ok width th"
  by (auto simp: validate_threshold_def threshold_config_ok_def go_rem_pos mod_eq_0_iff_dvd)

lemma validate_window_iff:
  assumes "range_order ro"
  shows "validate_window ro names i j p = None \<longleftrightarrow> window_config_ok names p"
proof (cases "pcBucketDuration p")
  case None
  then show ?thesis by (simp add: validate_window_def window_config_ok_def)
next
  case (Some width)
  show ?thesis
  proof (cases "0 < width")
    case True
    let ?f = "\<lambda>_ (direction, threshold).
        (case threshold of None \<Rightarrow> None | Some th \<Rightarrow> validate_threshold i j width direction th)"
    let ?m = "[(UPSCALE, pcUpscale p), (DOWNSCALE, pcDownscale p)]"
    have "each ?f 0 (ro ?m) = None \<longleftrightarrow> list_all (\<lambda>(direction, threshold). pred_option (threshold_config_ok width) threshold) (ro ?m)"
      by (rule each_None) (auto simp: validate_threshold_iff [OF True] split: option.splits prod.splits)
    also have "\<dots> \<longleftrightarrow> pred_option (threshold_config_ok width) (pcUpscale p) \<and> pred_option (threshold_config_ok width) (pcDownscale p)"
      by (simp add: list_all_iff range_order_set [OF assms])
    finally show ?thesis
      using True Some by (auto simp: validate_window_def window_config_ok_def)
  qed (use Some in \<open>simp add: validate_window_def window_config_ok_def\<close>)
qed

lemma validate_policy_iff:
  assumes "range_order ro"
  shows "validate_policy ro eng names i j p = None \<longleftrightarrow> policy_config_ok eng names p"
  by (auto simp: validate_policy_def policy_config_ok_def target_config_ok_def validate_window_iff [OF assms]
      split: sum.splits)

lemma validate_counts_iff:
  "validate_counts i svc = None \<longleftrightarrow> (\<exists>mn mx. svMinCount svc = Some mn \<and> svMaxCount svc = Some mx \<and> 0 \<le> mn \<and> mn \<le> mx)"
  by (auto simp: validate_counts_def split: option.splits)

lemma validate_service_iff:
  assumes "range_order ro"
  shows "validate_service ro tzdb eng promSources i svc = None \<longleftrightarrow> service_config_ok tzdb eng promSources svc"
proof -
  have "each (validate_policy ro eng (map mbcName (svMetrics svc)) i) 0 (svPolicies svc) = None
      \<longleftrightarrow> list_all (policy_config_ok eng (map mbcName (svMetrics svc))) (svPolicies svc)"
    by (rule each_None) (rule validate_policy_iff [OF assms])
  then show ?thesis
    by (auto simp: validate_service_def service_config_ok_def validate_counts_iff validate_metrics_iff
        validate_schedule_iff)
qed

lemma validate_services_iff:
  assumes "range_order ro"
  shows "validate_services ro tzdb eng proms i seen svcs = None \<longleftrightarrow>
    distinct (map svName svcs) \<and> '''' \<notin> svName ` set svcs \<and> svName ` set svcs \<inter> seen = {}
    \<and> list_all (service_config_ok tzdb eng proms) svcs"
  using assms
proof (induction ro tzdb eng proms i seen svcs rule: validate_services.induct)
  case (2 ro tzdb eng proms i seen svc svcs)
  note v = validate_service_iff [OF "2.prems", of tzdb eng proms i svc]
  show ?case
  proof (cases "validate_service ro tzdb eng proms i svc")
    case None
    with 2 v show ?thesis by auto
  next
    case (Some e)
    with v show ?thesis by auto
  qed
qed simp

lemma validate_config_ok:
  assumes "range_order ro"
  shows "validate ro tzdb eng cfg = None \<longleftrightarrow> config_ok tzdb eng cfg"
  by (auto simp: validate_def config_ok_def validate_adapter_iff validate_prometheus_iff
      validate_services_iff [OF assms])

section \<open>Properties\<close>

text \<open>C31. Validation accepts exactly the well-formed configurations, in whatever order the two
  directions of a window are visited: no error is reported for one, and every other one is
  rejected, a nil pointer counting as a rejection.\<close>

theorem validate_exact:
  assumes "range_order ro"
  shows "validate ro tzdb eng cfg = None \<longleftrightarrow> config_ok tzdb eng cfg"
  using assms by (rule validate_config_ok)

text \<open>A configuration with one service and one window policy over an OTLP metric.\<close>

definition example_config :: config where
  "example_config =
     \<lparr>ReconcileInterval = 0, DryRun = False,
      Defaults = \<lparr>dfMinCount = 0, dfMaxCount = 0, dfCooldown = \<lparr>cdUpscale = 0, cdDownscale = 0\<rparr>\<rparr>,
      Metrics = \<lparr>mcOTLP = \<lparr>otlpEnabled = True, otlpGRPCPort = 0, otlpHTTPPort = 0\<rparr>, mcPrometheus = []\<rparr>,
      Adapter = \<lparr>adType = ''memory'', adECS = \<lparr>ecsRegion = '''', ecsCluster = ''''\<rparr>\<rparr>,
      Server = \<lparr>srvAddress = ''''\<rparr>,
      Services =
        [\<lparr>svName = ''api'', svIdentifier = ''api-svc'', svMinCount = None, svMaxCount = Some 20, svCooldown = None,
          svSchedule = None,
          svMetrics = [\<lparr>mbcName = ''q'', mbcSource = ''otlp'', mbcQuery = '''', mbcMetric = ''queue'', mbcAttributes = []\<rparr>],
          svPolicies = [\<lparr>pcType = ''window'', pcMetric = ''q'', pcExpression = '''', pcBucketDuration = None,
            pcUpscale = Some \<lparr>tcThreshold = Fin 100, tcSustainedFor = 60 * second, tcStep = 2\<rparr>, pcDownscale = None\<rparr>]\<rparr>]\<rparr>"

lemmas example_config_simps =
  example_config_def apply_defaults_def default_service_def default_policy_def default_defaults_def

lemma example_config_ok: "config_ok (\<lambda>_. None) example_engine (apply_defaults example_config)"
  by (simp add: example_config_simps config_ok_def adapter_config_ok_def prometheus_ok_def service_config_ok_def
      bindings_ok_def source_ok_def policy_config_ok_def window_config_ok_def threshold_config_ok_def time_units Let_def)

theorem validate_exact_witness:
  "validate rev (\<lambda>_. None) example_engine (apply_defaults example_config) = None"
  by (subst validate_exact [OF range_order_rev]) (rule example_config_ok)

text \<open>Applying the defaults leaves no service without bounds or cooldown and no window policy
  without a bucket duration, keeps every value a service sets itself, an explicit zero
  included, and is idempotent.\<close>

theorem defaults_complete:
  "apply_defaults (apply_defaults cfg) = apply_defaults cfg
   \<and> list_all2 (\<lambda>svc svc'. svName svc' = svName svc
        \<and> svMinCount svc' = Some (case svMinCount svc of Some v \<Rightarrow> v | None \<Rightarrow> dfMinCount (Defaults (apply_defaults cfg)))
        \<and> svMaxCount svc' = Some (case svMaxCount svc of Some v \<Rightarrow> v | None \<Rightarrow> dfMaxCount (Defaults (apply_defaults cfg)))
        \<and> svCooldown svc' = Some (case svCooldown svc of Some v \<Rightarrow> v | None \<Rightarrow> dfCooldown (Defaults (apply_defaults cfg)))
        \<and> list_all2 (\<lambda>p p'. pcType p' = pcType p \<and> pcBucketDuration p' =
             (if pcType p = ''window'' then Some (case pcBucketDuration p of Some d \<Rightarrow> d | None \<Rightarrow> 10 * second)
              else pcBucketDuration p)) (svPolicies svc) (svPolicies svc'))
      (Services cfg) (Services (apply_defaults cfg))"
proof -
  have p: "default_policy (default_policy q) = default_policy q" for q
    by (simp add: default_policy_def)
  have s: "default_service d (default_service d svc) = default_service d svc" for d svc
    by (simp add: default_service_def p comp_def split: option.splits)
  have d: "default_defaults (default_defaults x) = default_defaults x" for x
    by (simp add: default_defaults_def time_units)
  have "apply_defaults (apply_defaults cfg) = apply_defaults cfg"
    by (simp add: apply_defaults_def Let_def s d comp_def second_def)
  moreover have "list_all2 R xs (map f xs) \<longleftrightarrow> (\<forall>x \<in> set xs. R x (f x))" for R :: "'x \<Rightarrow> 'y \<Rightarrow> bool" and f xs
    by (induction xs) auto
  ultimately show ?thesis
    by (simp add: apply_defaults_def Let_def default_service_def default_policy_def list.rel_map list.rel_refl
        split: option.splits)
qed

end
