(* ===== verification/Config_Build.thy ===== *)
theory Config_Build
  imports Config
begin

text \<open>
  Runtime services (\<^verbatim>\<open>internal/config/config.go\<close>, \<^verbatim>\<open>BuildServices\<close> and \<^verbatim>\<open>MetricRetention\<close>). A
  policy of a service is an interface value that may be nil, so it is an option. The lemmas
  show that a validated configuration builds without an error or a panic into well-formed
  services, and that the retention covers every window.
\<close>

record metric_binding =
  mbName :: string
  mbSource :: string
  mbQuery :: string
  mbMetric :: string
  mbAttributes :: "(string \<times> string) list"

record 'p service =
  sName :: string
  sIdentifier :: string
  sMinCount :: int
  sMaxCount :: int
  sCooldown :: cooldown_config
  sSchedule :: "schedule option"
  sMetrics :: "metric_binding list"
  sPolicies :: "'p policy option list"

fun map_result :: "('a \<Rightarrow> config_error + 'b) \<Rightarrow> 'a list \<Rightarrow> config_error + 'b list" where
  "map_result f [] = Inr []"
| "map_result f (x # xs) =
     (case f x of
        Inl e \<Rightarrow> Inl e
      | Inr y \<Rightarrow> (case map_result f xs of Inl e \<Rightarrow> Inl e | Inr ys \<Rightarrow> Inr (y # ys)))"

definition build_binding :: "metric_binding_config \<Rightarrow> metric_binding" where
  "build_binding mc = \<lparr>mbName = mbcName mc, mbSource = mbcSource mc, mbQuery = mbcQuery mc,
     mbMetric = mbcMetric mc, mbAttributes = mbcAttributes mc\<rparr>"

definition build_entry :: "schedule_entry_config \<Rightarrow> schedule_entry" where
  "build_entry e =
     \<lparr>Days = map (\<lambda>d. case map_of day_map d of None \<Rightarrow> Sunday | Some w \<Rightarrow> w) (seDays e),
      Start = seStart e, End = seEnd e, EntryMinCount = seMinCount e, EntryMaxCount = seMaxCount e\<rparr>"

definition build_schedule :: "schedule_config \<Rightarrow> schedule" where
  "build_schedule sc =
     \<lparr>Timezone = (if scTimezone sc \<noteq> '''' then scTimezone sc else ''UTC''),
      Entries = map build_entry (scEntries sc)\<rparr>"

definition build_threshold :: "threshold_config \<Rightarrow> window_threshold" where
  "build_threshold th = \<lparr>thThreshold = tcThreshold th, thSustainedFor = tcSustainedFor th, thStep = tcStep th\<rparr>"

definition build_policy ::
  "'p expr_engine \<Rightarrow> string \<Rightarrow> string list \<Rightarrow> policy_config \<Rightarrow> config_error + 'p policy option" where
  "build_policy eng name metricNames pc =
     (if pcType pc = ''window'' then
        (case pcBucketDuration pc of
           None \<Rightarrow> Inl NilDereference
         | Some width \<Rightarrow>
             Inr (Some (PWindow
               \<lparr>wpService = name, wpMetric = pcMetric pc, wpBucketDuration = width,
                wpUpscale = map_option build_threshold (pcUpscale pc),
                wpDownscale = map_option build_threshold (pcDownscale pc), wpResetCutoff = 0\<rparr>)))
      else if pcType pc = ''target'' then
        (case new_target_policy eng (pcExpression pc) metricNames of
           Inl e \<Rightarrow> Inl (CompileTargetFailed name e)
         | Inr t \<Rightarrow> Inr (Some (PTarget (t\<lparr>tpService := name\<rparr>))))
      else Inr None)"

definition build_service :: "'p expr_engine \<Rightarrow> service_config \<Rightarrow> config_error + 'p service" where
  "build_service eng sc =
     (case (svMinCount sc, svMaxCount sc, svCooldown sc) of
        (Some mn, Some mx, Some cd) \<Rightarrow>
          (case map_result (build_policy eng (svName sc) (map mbcName (svMetrics sc))) (svPolicies sc) of
             Inl e \<Rightarrow> Inl e
           | Inr ps \<Rightarrow>
               Inr \<lparr>sName = svName sc, sIdentifier = svIdentifier sc, sMinCount = mn, sMaxCount = mx, sCooldown = cd,
                    sSchedule = map_option build_schedule (svSchedule sc),
                    sMetrics = map build_binding (svMetrics sc), sPolicies = ps\<rparr>)
      | _ \<Rightarrow> Inl NilDereference)"

definition build_services :: "'p expr_engine \<Rightarrow> config \<Rightarrow> config_error + 'p service list" where
  "build_services eng cfg = map_result (build_service eng) (Services cfg)"

definition retention_step :: "duration \<Rightarrow> duration \<Rightarrow> threshold_config option \<Rightarrow> duration" where
  "retention_step width acc threshold =
     (case threshold of
        None \<Rightarrow> acc
      | Some th \<Rightarrow>
          let candidate = wrap64 (tcSustainedFor th + wrap64 (2 * width))
          in if candidate > acc then candidate else acc)"

definition policy_retention :: "duration \<Rightarrow> policy_config \<Rightarrow> duration" where
  "policy_retention acc p =
     (if pcType p \<noteq> ''window'' then acc
      else (case pcBucketDuration p of
              None \<Rightarrow> acc
            | Some width \<Rightarrow> foldl (retention_step width) acc [pcUpscale p, pcDownscale p]))"

definition MetricRetention :: "config \<Rightarrow> duration" where
  "MetricRetention cfg =
     foldl (\<lambda>acc svc. foldl policy_retention acc (svPolicies svc)) (30 * second) (Services cfg)"

section \<open>Building\<close>

lemma map_result_Inr:
  "list_all P xs \<Longrightarrow> (\<And>x. x \<in> set xs \<Longrightarrow> P x \<Longrightarrow> \<exists>y. f x = Inr y \<and> Q x y) \<Longrightarrow>
   \<exists>ys. map_result f xs = Inr ys \<and> list_all2 Q xs ys"
proof (induction xs)
  case (Cons x xs)
  then obtain y where y: "f x = Inr y" "Q x y" by auto
  from Cons obtain ys where "map_result f xs = Inr ys" "list_all2 Q xs ys" by auto
  with y show ?case by simp
qed simp

lemma list_all2_right: "list_all2 (\<lambda>_ y. P y) xs ys \<Longrightarrow> y \<in> set ys \<Longrightarrow> P y"
  by (induction xs ys rule: list_all2_induct) auto

text \<open>The 64-bit ranges that the types of the configuration impose on the windows.\<close>

definition threshold_int64 :: "threshold_config \<Rightarrow> bool" where
  "threshold_int64 th \<longleftrightarrow> tcSustainedFor th \<le> maxInt64 \<and> tcStep th \<le> maxInt64"

definition policy_int64 :: "policy_config \<Rightarrow> bool" where
  "policy_int64 p \<longleftrightarrow> pred_option threshold_int64 (pcUpscale p) \<and> pred_option threshold_int64 (pcDownscale p)"

definition config_int64 :: "config \<Rightarrow> bool" where
  "config_int64 cfg \<longleftrightarrow> list_all (\<lambda>svc. list_all policy_int64 (svPolicies svc)) (Services cfg)"

text \<open>What a runtime service promises: sane bounds, no nil policy, every policy well configured
  and reading only metrics that the service binds.\<close>

definition service_ok :: "'p service \<Rightarrow> bool" where
  "service_ok s \<longleftrightarrow> 0 \<le> sMinCount s \<and> sMinCount s \<le> sMaxCount s \<and> sPolicies s \<noteq> []
     \<and> (\<forall>q \<in> set (sPolicies s). \<exists>p. q = Some p \<and> policy_ok p \<and> set (required_metrics p) \<subseteq> mbName ` set (sMetrics s))
     \<and> pred_option (\<lambda>sch. list_all (\<lambda>e. hhmm (Start e) \<and> hhmm (End e)) (Entries sch)) (sSchedule s)"

lemma build_policy_ok:
  assumes "policy_config_ok eng names p" "policy_int64 p"
  shows "\<exists>q. build_policy eng name names p = Inr (Some q) \<and> policy_ok q \<and> set (required_metrics q) \<subseteq> set names"
proof (cases "pcType p = ''window''")
  case True
  with assms(1) obtain width where w: "pcBucketDuration p = Some width" "0 < width"
    "pred_option (threshold_config_ok width) (pcUpscale p)"
    "pred_option (threshold_config_ok width) (pcDownscale p)" "pcMetric p \<in> set names"
    by (auto simp: policy_config_ok_def window_config_ok_def)
  then show ?thesis
    using True assms(2)
    by (cases "pcUpscale p"; cases "pcDownscale p")
       (auto simp: build_policy_def window_ok_def threshold_ok_def threshold_config_ok_def build_threshold_def
         policy_int64_def threshold_int64_def window_required_metrics_def)
next
  case False
  with assms(1) obtain program where "pcType p = ''target''" "compile_expression eng (pcExpression p) names = Inr program"
    by (auto simp: policy_config_ok_def target_config_ok_def)
  then show ?thesis
    by (simp add: build_policy_def new_target_policy_def target_required_metrics_def)
qed

lemma build_schedule_ok:
  "schedule_config_ok tzdb sc \<Longrightarrow> list_all (\<lambda>e. hhmm (Start e) \<and> hhmm (End e)) (Entries (build_schedule sc))"
  by (auto simp: schedule_config_ok_def build_schedule_def build_entry_def entry_config_ok_def list_all_iff)

lemma build_service_ok:
  assumes "service_config_ok tzdb eng proms sc" "svCooldown sc \<noteq> None" "list_all policy_int64 (svPolicies sc)"
  shows "\<exists>s. build_service eng sc = Inr s \<and> service_ok s \<and> sName s = svName sc \<and> sIdentifier s = svIdentifier sc
    \<and> length (sPolicies s) = length (svPolicies sc)"
proof -
  from assms obtain mn mx cd where c: "svMinCount sc = Some mn" "svMaxCount sc = Some mx" "svCooldown sc = Some cd"
    "0 \<le> mn" "mn \<le> mx"
    by (auto simp: service_config_ok_def)
  let ?names = "map mbcName (svMetrics sc)"
  let ?Q = "\<lambda>_ q. \<exists>p. q = Some p \<and> policy_ok p \<and> set (required_metrics p) \<subseteq> set ?names"
  have "list_all (\<lambda>p. policy_config_ok eng ?names p \<and> policy_int64 p) (svPolicies sc)"
    using assms by (auto simp: service_config_ok_def list_all_iff)
  moreover have "\<exists>y. build_policy eng (svName sc) ?names p = Inr y \<and> ?Q p y"
    if "policy_config_ok eng ?names p \<and> policy_int64 p" for p
    using build_policy_ok [of eng ?names p "svName sc"] that by auto
  ultimately have "\<exists>ps. map_result (build_policy eng (svName sc) ?names) (svPolicies sc) = Inr ps \<and> list_all2 ?Q (svPolicies sc) ps"
    by (rule map_result_Inr)
  then obtain ps where ps: "map_result (build_policy eng (svName sc) ?names) (svPolicies sc) = Inr ps"
    and q: "list_all2 ?Q (svPolicies sc) ps" by blast
  have all: "\<forall>q \<in> set ps. ?Q undefined q"
    using q by (auto dest: list_all2_right)
  have len: "length ps = length (svPolicies sc)" using list_all2_lengthD [OF q] by simp
  have "svPolicies sc \<noteq> []" using assms(1) by (simp add: service_config_ok_def)
  with len have ne: "ps \<noteq> []" by auto
  have sch: "pred_option (\<lambda>sch. list_all (\<lambda>e. hhmm (Start e) \<and> hhmm (End e)) (Entries sch)) (map_option build_schedule (svSchedule sc))"
    using assms(1) build_schedule_ok [of tzdb] by (cases "svSchedule sc") (simp_all add: service_config_ok_def)
  let ?s = "\<lparr>sName = svName sc, sIdentifier = svIdentifier sc, sMinCount = mn, sMaxCount = mx, sCooldown = cd,
     sSchedule = map_option build_schedule (svSchedule sc), sMetrics = map build_binding (svMetrics sc), sPolicies = ps\<rparr>"
  have names: "mbName ` set (map build_binding (svMetrics sc)) = set ?names"
    by (simp add: build_binding_def image_image)
  have "build_service eng sc = Inr ?s" using c ps by (simp add: build_service_def)
  moreover have "service_ok ?s" unfolding service_ok_def
    using c ne sch all names by simp
  ultimately show ?thesis using len by simp
qed

lemma validated_builds:
  assumes "range_order ro" "validate ro tzdb eng (apply_defaults cfg) = None" "config_int64 (apply_defaults cfg)"
  shows "\<exists>svcs. build_services eng (apply_defaults cfg) = Inr svcs \<and> list_all service_ok svcs
    \<and> map sName svcs = map svName (Services cfg) \<and> distinct (map sName svcs)"
proof -
  let ?cfg = "apply_defaults cfg"
  let ?proms = "pmName ` set (mcPrometheus (Metrics ?cfg))"
  have ok: "config_ok tzdb eng ?cfg" using assms(1,2) by (simp add: validate_config_ok)
  have cd: "svCooldown svc \<noteq> None" if "svc \<in> set (Services ?cfg)" for svc
    using that by (auto simp: apply_defaults_def Let_def default_service_def split: option.splits)
  let ?P = "\<lambda>svc. service_config_ok tzdb eng ?proms svc \<and> list_all policy_int64 (svPolicies svc)"
  let ?Q = "\<lambda>svc s. service_ok s \<and> sName s = svName svc"
  have "list_all ?P (Services ?cfg)"
    using ok assms(3) by (auto simp: config_ok_def config_int64_def list_all_iff)
  moreover have "\<exists>s. build_service eng svc = Inr s \<and> ?Q svc s" if "svc \<in> set (Services ?cfg)" "?P svc" for svc
    using build_service_ok [OF _ cd [OF that(1)]] that(2) by blast
  ultimately have "\<exists>svcs. map_result (build_service eng) (Services ?cfg) = Inr svcs \<and> list_all2 ?Q (Services ?cfg) svcs"
    by (rule map_result_Inr)
  then obtain svcs where b: "build_services eng ?cfg = Inr svcs" and q: "list_all2 ?Q (Services ?cfg) svcs"
    unfolding build_services_def by blast
  have "list_all2 ?Q xs ys \<Longrightarrow> list_all service_ok ys \<and> map sName ys = map svName xs" for xs and ys :: "'a service list"
    by (induction xs ys rule: list_all2_induct) auto
  from this [OF q] have "list_all service_ok svcs \<and> map sName svcs = map svName (Services ?cfg)" .
  moreover have "map svName (Services ?cfg) = map svName (Services cfg)"
    by (simp add: apply_defaults_def Let_def default_service_def)
  ultimately show ?thesis using b ok by (auto simp: config_ok_def)
qed

section \<open>Retention\<close>

text \<open>The windows of a configuration: bucket duration and sustained duration of every configured direction.\<close>

definition policy_windows :: "policy_config \<Rightarrow> (duration \<times> duration) list" where
  "policy_windows p =
     (if pcType p \<noteq> ''window'' then []
      else (case pcBucketDuration p of
              None \<Rightarrow> []
            | Some width \<Rightarrow> map (\<lambda>th. (width, tcSustainedFor th)) (List.map_filter id [pcUpscale p, pcDownscale p])))"

definition configured_windows :: "config \<Rightarrow> (duration \<times> duration) list" where
  "configured_windows cfg = concat (map (\<lambda>svc. concat (map policy_windows (svPolicies svc))) (Services cfg))"

definition window_retention :: "duration \<times> duration \<Rightarrow> duration" where
  "window_retention ws = wrap64 (snd ws + wrap64 (2 * fst ws))"

lemma foldl_concat: "foldl (\<lambda>acc x. foldl f acc (g x)) a xs = foldl f a (concat (map g xs))"
  by (induction xs arbitrary: a) auto

lemma foldl_max: "foldl (\<lambda>a x. max a (f x)) (a :: int) xs = Max (insert a (f ` set xs))"
proof (induction xs arbitrary: a)
  case (Cons x xs)
  have "Max (insert (max a (f x)) (f ` set xs)) = Max (insert a (insert (f x) (f ` set xs)))"
    by (cases "xs = []") (simp_all add: max.assoc)
  with Cons show ?case by simp
qed simp

lemma policy_retention_fold:
  "policy_retention acc p = foldl (\<lambda>a ws. max a (window_retention ws)) acc (policy_windows p)"
  by (cases "pcUpscale p"; cases "pcDownscale p"; cases "pcBucketDuration p")
     (auto simp: policy_retention_def policy_windows_def retention_step_def window_retention_def Let_def max_def
       List.map_filter_simps)

lemma MetricRetention_Max:
  "MetricRetention cfg = Max (insert (30 * second) (window_retention ` set (configured_windows cfg)))"
proof -
  have "MetricRetention cfg = foldl (\<lambda>a ws. max a (window_retention ws)) (30 * second) (configured_windows cfg)"
    unfolding MetricRetention_def policy_retention_fold configured_windows_def by (simp only: foldl_concat)
  then show ?thesis by (simp only: foldl_max)
qed

lemma MetricRetention_int64: "30 * second \<le> MetricRetention cfg" "MetricRetention cfg \<le> maxInt64"
  unfolding MetricRetention_Max by (auto simp: window_retention_def wrap64_range second_def)

section \<open>Properties\<close>

text \<open>C32. A configuration that passes validation builds: no nil pointer is dereferenced and no
  expression fails to compile, every configured service appears once and in order, none of its
  policies is nil, every window can be evaluated and every policy reads only bound metrics.\<close>

theorem validated_config_builds:
  assumes "range_order ro" "validate ro tzdb eng (apply_defaults cfg) = None" "config_int64 (apply_defaults cfg)"
  shows "\<exists>svcs. build_services eng (apply_defaults cfg) = Inr svcs \<and> list_all service_ok svcs
    \<and> map sName svcs = map svName (Services cfg) \<and> distinct (map sName svcs)"
  using assms by (rule validated_builds)

theorem validated_config_builds_witness:
  "\<exists>svcs. build_services example_engine (apply_defaults example_config) = Inr svcs \<and> list_all service_ok svcs
    \<and> map sName svcs = [''api'']"
proof -
  have "validate rev (\<lambda>_. None) example_engine (apply_defaults example_config) = None"
    using validate_config_ok [OF range_order_rev] example_config_ok by blast
  moreover have "config_int64 (apply_defaults example_config)"
    by (simp add: example_config_simps config_int64_def policy_int64_def threshold_int64_def Let_def time_units)
  ultimately have "\<exists>svcs. build_services example_engine (apply_defaults example_config) = Inr svcs
      \<and> list_all service_ok svcs \<and> map sName svcs = map svName (Services example_config) \<and> distinct (map sName svcs)"
    by (rule validated_config_builds [OF range_order_rev])
  then show ?thesis by (auto simp: example_config_def)
qed

text \<open>The retention given to the store is the largest of 30 seconds and, over all configured
  directions of all windows, the sustained duration plus two buckets, as long as none of these
  sums exceeds 64 bits.\<close>

theorem retention_is_largest_window:
  assumes "\<forall>(width, sustained_for) \<in> set (configured_windows cfg).
    0 \<le> width \<and> 0 \<le> sustained_for \<and> sustained_for + 2 * width \<le> maxInt64"
  shows "MetricRetention cfg =
    Max (insert (30 * second) ((\<lambda>(width, sustained_for). sustained_for + 2 * width) ` set (configured_windows cfg)))"
proof -
  have "window_retention ` set (configured_windows cfg) =
      (\<lambda>(width, sustained_for). sustained_for + 2 * width) ` set (configured_windows cfg)"
  proof (rule image_cong [OF refl])
    fix ws assume "ws \<in> set (configured_windows cfg)"
    with assms show "window_retention ws = (case ws of (width, sustained_for) \<Rightarrow> sustained_for + 2 * width)"
      by (cases ws) (auto simp: window_retention_def wrap64_id)
  qed
  then show ?thesis by (simp add: MetricRetention_Max)
qed

theorem retention_is_largest_window_witness: "MetricRetention (apply_defaults example_config) = 80 * second"
proof -
  have "configured_windows (apply_defaults example_config) = [(10 * second, 60 * second)]"
    by (simp add: configured_windows_def policy_windows_def example_config_simps Let_def List.map_filter_simps)
  then show ?thesis
    by (subst retention_is_largest_window) (simp_all add: second_def)
qed

end
