(* ===== verification/Adapter.thy ===== *)
theory Adapter
  imports Config
begin

text \<open>
  Platform adapters (\<^verbatim>\<open>internal/adapter\<close>): the interface, the in-memory adapter and the ECS
  adapter. An adapter is a record of its operations over the state of the platform, which
  every call may change; a result is an error or a value. The AWS client is not part of the
  repository and is a record of its calls. The contract \<open>count_adapter\<close> says what a caller
  expects of the counts it reads and writes; both adapters meet it, the ECS adapter when its
  client does what its documentation says.
\<close>

datatype adapter_error =
    DescribeServiceFailed string | ServiceNotFound string | DescribeServicesFailed string
  | UpdateServiceFailed string
  | DescribeClusterFailed string | ClusterNotFound string | ClusterNotActive string
  | LoadAWSConfigFailed string | UnknownAdapter string

record 'a adapter_api =
  GetCurrentCount :: "string \<Rightarrow> 'a \<Rightarrow> (adapter_error + int) \<times> 'a"
  GetCurrentCounts :: "string list \<Rightarrow> 'a \<Rightarrow> (adapter_error + (string \<rightharpoonup> int)) \<times> 'a"
  Scale :: "string \<Rightarrow> int \<Rightarrow> 'a \<Rightarrow> (adapter_error + unit) \<times> 'a"
  HealthCheck :: "'a \<Rightarrow> (adapter_error + unit) \<times> 'a"

section \<open>The in-memory adapter\<close>

type_synonym memory_state = "string \<rightharpoonup> int"

definition new_memory_adapter :: memory_state where
  "new_memory_adapter = Map.empty"

definition memory_count :: "memory_state \<Rightarrow> string \<Rightarrow> int" where
  "memory_count a s = (case a s of None \<Rightarrow> 0 | Some n \<Rightarrow> n)"

definition memory_get_count :: "string \<Rightarrow> memory_state \<Rightarrow> (adapter_error + int) \<times> memory_state" where
  "memory_get_count s a = (Inr (memory_count a s), a)"

definition memory_get_counts :: "string list \<Rightarrow> memory_state \<Rightarrow> (adapter_error + (string \<rightharpoonup> int)) \<times> memory_state" where
  "memory_get_counts ss a = (Inr (foldl (\<lambda>m s. m(s \<mapsto> memory_count a s)) Map.empty ss), a)"

definition memory_scale :: "string \<Rightarrow> int \<Rightarrow> memory_state \<Rightarrow> (adapter_error + unit) \<times> memory_state" where
  "memory_scale s desired a = (Inr (), a(s \<mapsto> desired))"

definition memory_health :: "memory_state \<Rightarrow> (adapter_error + unit) \<times> memory_state" where
  "memory_health a = (Inr (), a)"

definition memory_set_count :: "string \<Rightarrow> int \<Rightarrow> memory_state \<Rightarrow> memory_state" where
  "memory_set_count s n a = a(s \<mapsto> n)"

definition memory_adapter :: "memory_state adapter_api" where
  "memory_adapter = \<lparr>GetCurrentCount = memory_get_count, GetCurrentCounts = memory_get_counts,
     Scale = memory_scale, HealthCheck = memory_health\<rparr>"

section \<open>The ECS adapter\<close>

record ecs_service =
  ServiceName :: "string option"
  DesiredCount :: int
  RunningCount :: int

record ecs_cluster =
  ClusterStatus :: "string option"

record 'a ecs_client =
  DescribeServices :: "string \<Rightarrow> string list \<Rightarrow> 'a \<Rightarrow> (string + ecs_service list) \<times> 'a"
  UpdateService :: "string \<Rightarrow> string \<Rightarrow> int \<Rightarrow> 'a \<Rightarrow> (string + unit) \<times> 'a"
  DescribeClusters :: "string list \<Rightarrow> 'a \<Rightarrow> (string + ecs_cluster list) \<times> 'a"

definition maxServicesPerBatch :: nat where
  "maxServicesPerBatch = 10"

text \<open>\<^verbatim>\<open>DesiredCount\<close> is an \<^verbatim>\<open>int32\<close>; its conversion to \<^verbatim>\<open>int\<close> keeps the value.\<close>

definition current_count :: "ecs_service \<Rightarrow> int" where
  "current_count svc = DesiredCount svc"

definition ecs_get_count :: "'a ecs_client \<Rightarrow> string \<Rightarrow> string \<Rightarrow> 'a \<Rightarrow> (adapter_error + int) \<times> 'a" where
  "ecs_get_count client cluster s st =
     (case DescribeServices client cluster [s] st of
        (Inl e, st1) \<Rightarrow> (Inl (DescribeServiceFailed e), st1)
      | (Inr out, st1) \<Rightarrow>
          (case out of [] \<Rightarrow> (Inl (ServiceNotFound s), st1) | svc # _ \<Rightarrow> (Inr (current_count svc), st1)))"

definition record_counts :: "(string \<rightharpoonup> int) \<Rightarrow> ecs_service list \<Rightarrow> (string \<rightharpoonup> int)" where
  "record_counts result out =
     foldl (\<lambda>m svc. case ServiceName svc of None \<Rightarrow> m | Some n \<Rightarrow> m(n \<mapsto> current_count svc)) result out"

text \<open>The batch loop from index \<open>i\<close>.\<close>

function ecs_describe_loop ::
  "'a ecs_client \<Rightarrow> string \<Rightarrow> string list \<Rightarrow> nat \<Rightarrow> (string \<rightharpoonup> int) \<Rightarrow> 'a
   \<Rightarrow> (adapter_error + (string \<rightharpoonup> int)) \<times> 'a" where
  "ecs_describe_loop client cluster ss i result st =
     (if i < length ss then
        let end' = (if i + maxServicesPerBatch > length ss then length ss else i + maxServicesPerBatch);
            batch = take (end' - i) (drop i ss)
        in (case DescribeServices client cluster batch st of
              (Inl e, st1) \<Rightarrow> (Inl (DescribeServicesFailed e), st1)
            | (Inr out, st1) \<Rightarrow>
                ecs_describe_loop client cluster ss (i + maxServicesPerBatch) (record_counts result out) st1)
      else (Inr result, st))"
  by pat_completeness auto
termination
  by (relation "measure (\<lambda>(client, cluster, ss, i, result, st). length ss - i)")
     (auto simp: maxServicesPerBatch_def)

declare ecs_describe_loop.simps [simp del]

definition ecs_get_counts ::
  "'a ecs_client \<Rightarrow> string \<Rightarrow> string list \<Rightarrow> 'a \<Rightarrow> (adapter_error + (string \<rightharpoonup> int)) \<times> 'a" where
  "ecs_get_counts client cluster ss st =
     (if ss = [] then (Inr Map.empty, st)
      else (case ecs_describe_loop client cluster ss 0 Map.empty st of
              (Inl e, st1) \<Rightarrow> (Inl e, st1)
            | (Inr result, st1) \<Rightarrow>
                (case find (\<lambda>s. result s = None) ss of
                   Some s \<Rightarrow> (Inl (ServiceNotFound s), st1)
                 | None \<Rightarrow> (Inr result, st1))))"

definition ecs_scale :: "'a ecs_client \<Rightarrow> string \<Rightarrow> string \<Rightarrow> int \<Rightarrow> 'a \<Rightarrow> (adapter_error + unit) \<times> 'a" where
  "ecs_scale client cluster s desired st =
     (case UpdateService client cluster s (wrap32 desired) st of
        (Inl e, st1) \<Rightarrow> (Inl (UpdateServiceFailed e), st1)
      | (Inr _, st1) \<Rightarrow> (Inr (), st1))"

definition ecs_health :: "'a ecs_client \<Rightarrow> string \<Rightarrow> 'a \<Rightarrow> (adapter_error + unit) \<times> 'a" where
  "ecs_health client cluster st =
     (case DescribeClusters client [cluster] st of
        (Inl e, st1) \<Rightarrow> (Inl (DescribeClusterFailed e), st1)
      | (Inr out, st1) \<Rightarrow>
          (case out of
             [] \<Rightarrow> (Inl (ClusterNotFound cluster), st1)
           | c # _ \<Rightarrow>
               (case ClusterStatus c of
                  None \<Rightarrow> (Inr (), st1)
                | Some status \<Rightarrow>
                    if status \<noteq> ''ACTIVE'' then (Inl (ClusterNotActive status), st1) else (Inr (), st1))))"

definition ecs_adapter :: "'a ecs_client \<Rightarrow> string \<Rightarrow> 'a adapter_api" where
  "ecs_adapter client cluster =
     \<lparr>GetCurrentCount = ecs_get_count client cluster, GetCurrentCounts = ecs_get_counts client cluster,
      Scale = ecs_scale client cluster, HealthCheck = ecs_health client cluster\<rparr>"

section \<open>Choosing an adapter\<close>

datatype 'a adapter_choice = ECSAdapter "'a ecs_client" string | MemoryAdapter

definition new_ecs_adapter ::
  "(string \<Rightarrow> string + 'a ecs_client) \<Rightarrow> ecs_config \<Rightarrow> adapter_error + 'a adapter_choice" where
  "new_ecs_adapter loadAWS cfg =
     (case loadAWS (ecsRegion cfg) of
        Inl e \<Rightarrow> Inl (LoadAWSConfigFailed e)
      | Inr client \<Rightarrow> Inr (ECSAdapter client (ecsCluster cfg)))"

definition new_adapter ::
  "(string \<Rightarrow> string + 'a ecs_client) \<Rightarrow> adapter_config \<Rightarrow> adapter_error + 'a adapter_choice" where
  "new_adapter loadAWS cfg =
     (if adType cfg = ''ecs'' then new_ecs_adapter loadAWS (adECS cfg)
      else if adType cfg = ''memory'' then Inr MemoryAdapter
      else Inl (UnknownAdapter (adType cfg)))"

section \<open>The contract\<close>

text \<open>
  The target count of every known service can be read in one call, reading changes no count,
  and a successful scale to a representable count sets that service's count and no other.
\<close>

locale count_adapter =
  fixes api :: "'a adapter_api"
    and cnt :: "'a \<Rightarrow> string \<Rightarrow> int"
    and known :: "'a \<Rightarrow> string \<Rightarrow> bool"
    and fits :: "int \<Rightarrow> bool"
  assumes counts_known: "\<forall>s \<in> set ss. known st s \<Longrightarrow>
      \<exists>m st'. GetCurrentCounts api ss st = (Inr m, st') \<and> (\<forall>s \<in> set ss. m s = Some (cnt st s))"
    and counts_same: "cnt (snd (GetCurrentCounts api ss st)) = cnt st"
    and counts_same_known: "known (snd (GetCurrentCounts api ss st)) = known st"
    and scale_sets: "Scale api s n st = (Inr (), st') \<Longrightarrow> fits n \<Longrightarrow> cnt st' = (cnt st)(s := n)"
    and scale_same_known: "known (snd (Scale api s n st)) = known st"
begin

lemma scale_then_counts:
  assumes "Scale api s n st = (Inr (), st')" "fits n" "\<forall>s' \<in> set ss. known st s'" "s' \<in> set ss"
  shows "\<exists>m st''. GetCurrentCounts api ss st' = (Inr m, st'') \<and> m s' = Some (if s' = s then n else cnt st s')"
proof -
  have "known st' = known st" using scale_same_known [of s n st] assms(1) by simp
  then obtain m st'' where m: "GetCurrentCounts api ss st' = (Inr m, st'')" "\<forall>s \<in> set ss. m s = Some (cnt st' s)"
    using counts_known [of ss st'] assms(3) by auto
  moreover have "cnt st' = (cnt st)(s := n)" using assms(1,2) by (rule scale_sets)
  ultimately show ?thesis using assms(4) by auto
qed

lemma counts_twice:
  assumes "\<forall>s \<in> set ss. known st s" "GetCurrentCounts api ss st = (Inr m, st')"
  shows "\<exists>m' st''. GetCurrentCounts api ss st' = (Inr m', st'') \<and> (\<forall>s \<in> set ss. m' s = m s)"
proof -
  have "known st' = known st" "cnt st' = cnt st"
    using counts_same_known [of ss st] counts_same [of ss st] assms(2) by simp_all
  then show ?thesis
    using counts_known [of ss st] counts_known [of ss st'] assms by auto
qed

end

lemma memory_counts_map: "foldl (\<lambda>m s. m(s \<mapsto> f s)) m0 ss = (\<lambda>s. if s \<in> set ss then Some (f s) else m0 s)"
  by (induction ss arbitrary: m0) (auto simp: fun_eq_iff)

lemma memory_count_scaled: "memory_count (a(s \<mapsto> n)) = (memory_count a)(s := n)"
  by (simp add: memory_count_def fun_eq_iff)

interpretation mem: count_adapter memory_adapter memory_count "\<lambda>_ _. True" "\<lambda>_. True"
  by unfold_locales
     (auto simp: memory_adapter_def memory_get_counts_def memory_counts_map memory_scale_def memory_count_scaled)

section \<open>The ECS adapter meets the contract\<close>

definition in_int32 :: "int \<Rightarrow> bool" where
  "in_int32 n \<longleftrightarrow> - 2147483648 \<le> n \<and> n \<le> 2147483647"

text \<open>The documented behaviour of the client: a description of at most ten services answers with
  the known ones among them, in any order, and an update sets the desired count it is given.\<close>

definition ecs_describe_ok ::
  "'a ecs_client \<Rightarrow> string \<Rightarrow> ('a \<Rightarrow> string \<Rightarrow> int) \<Rightarrow> ('a \<Rightarrow> string \<Rightarrow> bool) \<Rightarrow> bool" where
  "ecs_describe_ok client cluster cnt known \<longleftrightarrow>
     (\<forall>ss st. length ss \<le> 10 \<longrightarrow>
        (\<exists>out st'. DescribeServices client cluster ss st = (Inr out, st') \<and> cnt st' = cnt st \<and> known st' = known st
           \<and> (\<lambda>svc. (ServiceName svc, DesiredCount svc)) ` set out
               = (\<lambda>s. (Some s, cnt st s)) ` {s \<in> set ss. known st s}))"

definition ecs_update_ok ::
  "'a ecs_client \<Rightarrow> string \<Rightarrow> ('a \<Rightarrow> string \<Rightarrow> int) \<Rightarrow> ('a \<Rightarrow> string \<Rightarrow> bool) \<Rightarrow> bool" where
  "ecs_update_ok client cluster cnt known \<longleftrightarrow>
     (\<forall>s n st. (case UpdateService client cluster s n st of
         (r, st') \<Rightarrow> known st' = known st \<and> (r = Inr () \<longrightarrow> in_int32 n \<longrightarrow> cnt st' = (cnt st)(s := n))))"

lemma record_counts_exact:
  "\<forall>svc \<in> set out. \<forall>n. ServiceName svc = Some n \<longrightarrow> DesiredCount svc = c n \<Longrightarrow>
   record_counts r out s = (if Some s \<in> ServiceName ` set out then Some (c s) else r s)"
proof (induction out arbitrary: r)
  case Nil
  then show ?case by (simp add: record_counts_def)
next
  case (Cons svc out)
  have step: "record_counts r (svc # out) =
      record_counts (case ServiceName svc of None \<Rightarrow> r | Some n \<Rightarrow> r(n \<mapsto> current_count svc)) out"
    by (simp add: record_counts_def)
  show ?case
    unfolding step using Cons by (auto simp: current_count_def split: option.splits)
qed

lemma ecs_describe_loop_step:
  assumes "i < length ss"
  shows "ecs_describe_loop client cluster ss i r st =
    (case DescribeServices client cluster (take 10 (drop i ss)) st of
       (Inl e, st1) \<Rightarrow> (Inl (DescribeServicesFailed e), st1)
     | (Inr out, st1) \<Rightarrow> ecs_describe_loop client cluster ss (i + 10) (record_counts r out) st1)"
proof -
  have "take ((if i + 10 > length ss then length ss else i + 10) - i) (drop i ss) = take 10 (drop i ss)"
    by (simp add: take_all_iff)
  then show ?thesis
    using assms by (subst ecs_describe_loop.simps) (simp only: maxServicesPerBatch_def Let_def if_True)
qed

lemma ecs_describe_loop_exact:
  assumes "ecs_describe_ok client cluster cnt known"
  shows "\<exists>r' st'. ecs_describe_loop client cluster ss i r st = (Inr r', st') \<and> cnt st' = cnt st \<and> known st' = known st
    \<and> r' = (\<lambda>s. if s \<in> set (drop i ss) \<and> known st s then Some (cnt st s) else r s)"
proof (induction "length ss - i" arbitrary: i r st rule: less_induct)
  case less
  show ?case
  proof (cases "i < length ss")
    case False
    then show ?thesis by (simp add: ecs_describe_loop.simps)
  next
    case True
    let ?batch = "take 10 (drop i ss)"
    have "length ?batch \<le> 10" by simp
    from assms [unfolded ecs_describe_ok_def, rule_format, OF this, of st]
    obtain out st1 where d: "DescribeServices client cluster ?batch st = (Inr out, st1)" "cnt st1 = cnt st" "known st1 = known st"
      and out: "(\<lambda>svc. (ServiceName svc, DesiredCount svc)) ` set out = (\<lambda>s. (Some s, cnt st s)) ` {s \<in> set ?batch. known st s}"
      by blast
    have step: "ecs_describe_loop client cluster ss i r st =
        ecs_describe_loop client cluster ss (i + 10) (record_counts r out) st1"
      by (simp only: ecs_describe_loop_step [OF True] d(1) prod.case sum.case)
    have rc: "record_counts r out s = (if s \<in> set ?batch \<and> known st s then Some (cnt st s) else r s)" for s
    proof (subst record_counts_exact [where c = "cnt st"])
      show "\<forall>svc \<in> set out. \<forall>n. ServiceName svc = Some n \<longrightarrow> DesiredCount svc = cnt st n"
        using out by (force simp: set_eq_iff image_iff)
      have "ServiceName ` set out = Some ` {s \<in> set ?batch. known st s}"
        using arg_cong [OF out, of "(`) fst"] by (simp add: image_image)
      then show "(if Some s \<in> ServiceName ` set out then Some (cnt st s) else r s) =
          (if s \<in> set ?batch \<and> known st s then Some (cnt st s) else r s)" by auto
    qed
    have "length ss - (i + 10) < length ss - i" using True by simp
    from less [OF this, of "record_counts r out" st1] obtain r' st' where
      r': "ecs_describe_loop client cluster ss (i + 10) (record_counts r out) st1 = (Inr r', st')"
      "cnt st' = cnt st" "known st' = known st"
      "r' = (\<lambda>s. if s \<in> set (drop (i + 10) ss) \<and> known st s then Some (cnt st s) else record_counts r out s)"
      unfolding d by blast
    have split: "set (drop i ss) = set ?batch \<union> set (drop (i + 10) ss)"
      by (metis append_take_drop_id drop_drop add.commute set_append)
    have "r' = (\<lambda>s. if s \<in> set (drop i ss) \<and> known st s then Some (cnt st s) else r s)"
      unfolding r'(4) rc split by auto
    with step r'(1-3) show ?thesis by metis
  qed
qed

lemma find_None_known:
  "find (\<lambda>s. (if s \<in> set ss0 \<and> k s then Some (c s) else None) = None) ss = find (\<lambda>s. \<not> k s) ss" if "set ss \<subseteq> set ss0"
  using that by (induction ss) auto

lemma ecs_get_counts_exact:
  assumes "ecs_describe_ok client cluster cnt known"
  shows "\<exists>st'. cnt st' = cnt st \<and> known st' = known st \<and> ecs_get_counts client cluster ss st =
    (case find (\<lambda>s. \<not> known st s) ss of
       Some s \<Rightarrow> (Inl (ServiceNotFound s), st')
     | None \<Rightarrow> (Inr (\<lambda>s. if s \<in> set ss then Some (cnt st s) else None), st'))"
proof (cases "ss = []")
  case True
  then show ?thesis by (auto simp: ecs_get_counts_def)
next
  case False
  obtain st' where l: "ecs_describe_loop client cluster ss 0 Map.empty st =
      (Inr (\<lambda>s. if s \<in> set ss \<and> known st s then Some (cnt st s) else None), st')" "cnt st' = cnt st" "known st' = known st"
    using ecs_describe_loop_exact [OF assms, of ss 0 Map.empty st] by auto
  have f: "find (\<lambda>s. (if s \<in> set ss \<and> known st s then Some (cnt st s) else None) = None) ss = find (\<lambda>s. \<not> known st s) ss"
    by (rule find_None_known) simp
  show ?thesis
  proof (cases "find (\<lambda>s. \<not> known st s) ss")
    case None
    then have "\<forall>s \<in> set ss. known st s" by (auto simp: find_None_iff)
    then show ?thesis using False l f None
      by (intro exI [of _ st']) (auto simp: ecs_get_counts_def fun_eq_iff)
  next
    case (Some s)
    then show ?thesis using False l f
      by (intro exI [of _ st']) (simp add: ecs_get_counts_def)
  qed
qed

lemma ecs_count_adapter:
  assumes "ecs_describe_ok client cluster cnt known" "ecs_update_ok client cluster cnt known"
  shows "count_adapter (ecs_adapter client cluster) cnt known in_int32"
proof
  fix ss st
  obtain st' where st': "cnt st' = cnt st" "known st' = known st"
    and g: "ecs_get_counts client cluster ss st =
      (case find (\<lambda>s. \<not> known st s) ss of
         Some s \<Rightarrow> (Inl (ServiceNotFound s), st')
       | None \<Rightarrow> (Inr (\<lambda>s. if s \<in> set ss then Some (cnt st s) else None), st'))"
    using ecs_get_counts_exact [OF assms(1), of st ss] by blast
  show "cnt (snd (GetCurrentCounts (ecs_adapter client cluster) ss st)) = cnt st"
    "known (snd (GetCurrentCounts (ecs_adapter client cluster) ss st)) = known st"
    using st' by (auto simp: ecs_adapter_def g split: option.splits)
  show "\<exists>m st'. GetCurrentCounts (ecs_adapter client cluster) ss st = (Inr m, st') \<and> (\<forall>s \<in> set ss. m s = Some (cnt st s))"
    if "\<forall>s \<in> set ss. known st s"
  proof -
    have "find (\<lambda>s. \<not> known st s) ss = None" using that by (simp add: find_None_iff)
    then show ?thesis by (simp add: ecs_adapter_def g)
  qed
next
  fix s n st st'
  have u: "case UpdateService client cluster s (wrap32 n) st of
      (r, st') \<Rightarrow> known st' = known st \<and> (r = Inr () \<longrightarrow> in_int32 (wrap32 n) \<longrightarrow> cnt st' = (cnt st)(s := wrap32 n))"
    by (rule assms(2) [unfolded ecs_update_ok_def, THEN spec, THEN spec, THEN spec])
  show "known (snd (Scale (ecs_adapter client cluster) s n st)) = known st"
    using u by (auto simp: ecs_adapter_def ecs_scale_def split: sum.splits prod.splits)
  assume "Scale (ecs_adapter client cluster) s n st = (Inr (), st')" "in_int32 n"
  moreover have "wrap32 n = n" using \<open>in_int32 n\<close> by (simp add: in_int32_def wrap32_id)
  ultimately show "cnt st' = (cnt st)(s := n)"
    using u by (auto simp: ecs_adapter_def ecs_scale_def split: sum.splits prod.splits)
qed


section \<open>Requests\<close>

text \<open>A client that also keeps the list of the batches it was asked to describe.\<close>

definition logged_client :: "'a ecs_client \<Rightarrow> ('a \<times> string list list) ecs_client" where
  "logged_client client =
     \<lparr>DescribeServices = (\<lambda>cluster ss (st, reqs).
        case DescribeServices client cluster ss st of (r, st1) \<Rightarrow> (r, (st1, reqs @ [ss]))),
      UpdateService = (\<lambda>cluster s n (st, reqs). case UpdateService client cluster s n st of (r, st1) \<Rightarrow> (r, (st1, reqs))),
      DescribeClusters = (\<lambda>cs (st, reqs). case DescribeClusters client cs st of (r, st1) \<Rightarrow> (r, (st1, reqs)))\<rparr>"

lemma ecs_loop_batches:
  "ecs_describe_loop (logged_client client) cluster ss i r (st, reqs) = (res, (st', reqs')) \<Longrightarrow>
   \<exists>bs. reqs' = reqs @ bs \<and> list_all (\<lambda>b. b \<noteq> [] \<and> length b \<le> 10) bs \<and> (\<exists>rest. drop i ss = concat bs @ rest)
     \<and> (\<forall>v. res = Inr v \<longrightarrow> drop i ss = concat bs)"
proof (induction "length ss - i" arbitrary: i r st reqs rule: less_induct)
  case less
  show ?case
  proof (cases "i < length ss")
    case False
    with less.prems have "reqs' = reqs" "drop i ss = []" by (simp_all add: ecs_describe_loop.simps)
    then show ?thesis by auto
  next
    case True
    let ?b = "take 10 (drop i ss)"
    have b: "?b \<noteq> []" "length ?b \<le> 10" "drop i ss = ?b @ drop (i + 10) ss"
      using True append_take_drop_id [of 10 "drop i ss"] by (simp_all add: add.commute)
    obtain q st1 where q: "DescribeServices client cluster ?b st = (q, st1)" by (cases "DescribeServices client cluster ?b st")
    have step: "ecs_describe_loop (logged_client client) cluster ss i r (st, reqs) =
        (case q of Inl e \<Rightarrow> (Inl (DescribeServicesFailed e), (st1, reqs @ [?b]))
         | Inr out \<Rightarrow> ecs_describe_loop (logged_client client) cluster ss (i + 10) (record_counts r out) (st1, reqs @ [?b]))"
      unfolding ecs_describe_loop_step [OF True] by (simp add: logged_client_def q split: sum.splits)
    show ?thesis
    proof (cases q)
      case (Inl e)
      with step less.prems have "reqs' = reqs @ [?b]" "res = Inl (DescribeServicesFailed e)" by auto
      with b show ?thesis by (intro exI [of _ "[?b]"]) auto
    next
      case (Inr out)
      have "length ss - (i + 10) < length ss - i" using True by simp
      from less.hyps [OF this, of "record_counts r out" st1 "reqs @ [?b]"] less.prems step Inr
      obtain bs where bs: "reqs' = (reqs @ [?b]) @ bs" "list_all (\<lambda>b. b \<noteq> [] \<and> length b \<le> 10) bs"
        "\<exists>rest. drop (i + 10) ss = concat bs @ rest" "\<forall>v. res = Inr v \<longrightarrow> drop (i + 10) ss = concat bs"
        by auto
      then have "reqs' = reqs @ (?b # bs)" "list_all (\<lambda>b. b \<noteq> [] \<and> length b \<le> 10) (?b # bs)" using b by simp_all
      moreover have "\<exists>rest. drop i ss = concat (?b # bs) @ rest" using b(3) bs(3) by auto
      moreover have "\<forall>v. res = Inr v \<longrightarrow> drop i ss = concat (?b # bs)" using b(3) bs(4) by auto
      ultimately show ?thesis by blast
    qed
  qed
qed

section \<open>Properties\<close>


text \<open>A simulated ECS region with the services of a map, for the witnesses.\<close>

definition example_ecs :: "memory_state ecs_client" where
  "example_ecs =
     \<lparr>DescribeServices = (\<lambda>_ ss st. (Inr (map (\<lambda>s. \<lparr>ServiceName = Some s, DesiredCount = memory_count st s, RunningCount = 0\<rparr>)
        (filter (\<lambda>s. st s \<noteq> None) ss)), st)),
      UpdateService = (\<lambda>_ s n st. if st s = None then (Inl ''ServiceNotFoundException'', st) else (Inr (), st(s \<mapsto> n))),
      DescribeClusters = (\<lambda>_ st. (Inr [], st))\<rparr>"

lemma example_ecs_describe: "ecs_describe_ok example_ecs c memory_count (\<lambda>st s. st s \<noteq> None)"
  unfolding ecs_describe_ok_def example_ecs_def by (auto simp: image_image)

lemma example_ecs_update: "ecs_update_ok example_ecs c memory_count (\<lambda>st s. st s \<noteq> None)"
  unfolding ecs_update_ok_def example_ecs_def by (auto simp: memory_count_scaled fun_eq_iff simp del: not_None_eq)


text \<open>No describe request of the ECS adapter names more than ten services or none, the requests
  cover the services in order without overlap, and a call that succeeds has asked for all of
  them, whatever the client answers.\<close>

theorem ecs_requests_in_batches:
  assumes "GetCurrentCounts (ecs_adapter (logged_client client) cluster) ss (st, []) = (res, (st', reqs))"
  shows "list_all (\<lambda>b. b \<noteq> [] \<and> length b \<le> 10) reqs \<and> (\<exists>rest. ss = concat reqs @ rest)
    \<and> (\<forall>v. res = Inr v \<longrightarrow> ss = concat reqs)"
proof (cases "ss = []")
  case True
  with assms show ?thesis by (auto simp: ecs_adapter_def ecs_get_counts_def)
next
  case False
  obtain q st1 reqs1 where q: "ecs_describe_loop (logged_client client) cluster ss 0 Map.empty (st, []) = (q, (st1, reqs1))"
    by (metis surj_pair)
  with assms False have "reqs = reqs1" "\<forall>v. res = Inr v \<longrightarrow> (\<exists>v. q = Inr v)"
    by (auto simp: ecs_adapter_def ecs_get_counts_def split: sum.splits option.splits)
  with ecs_loop_batches [OF q] show ?thesis by auto
qed

theorem ecs_requests_in_batches_witness:
  "\<exists>res st' reqs. GetCurrentCounts (ecs_adapter (logged_client example_ecs) ''c'') (map show_nat [0..<25]) (Map.empty, []) =
     (res, (st', reqs)) \<and> list_all (\<lambda>b. length b \<le> 10) reqs"
proof -
  obtain res st' reqs where r:
    "GetCurrentCounts (ecs_adapter (logged_client example_ecs) ''c'') (map show_nat [0..<25]) (Map.empty, []) = (res, (st', reqs))"
    by (metis surj_pair)
  from ecs_requests_in_batches [OF r] have "list_all (\<lambda>b. length b \<le> 10) reqs" by (auto simp: list_all_iff)
  with r show ?thesis by blast
qed

text \<open>What is scaled is read back: after a successful ECS scale to a 32-bit count, the next batch
  read gives the service that count and every other service its old one.\<close>

theorem ecs_scale_then_read:
  assumes "ecs_describe_ok client cluster cnt known" "ecs_update_ok client cluster cnt known"
    and "Scale (ecs_adapter client cluster) s n st = (Inr (), st')" "in_int32 n"
    and "\<forall>s' \<in> set ss. known st s'" "s' \<in> set ss"
  shows "\<exists>m st''. GetCurrentCounts (ecs_adapter client cluster) ss st' = (Inr m, st'')
    \<and> m s' = Some (if s' = s then n else cnt st s')"
  using assms(3-6) by (rule count_adapter.scale_then_counts [OF ecs_count_adapter [OF assms(1,2)]])

theorem ecs_scale_then_read_witness:
  "\<exists>m st''. GetCurrentCounts (ecs_adapter example_ecs ''c'') [''a'', ''b''] [''a'' \<mapsto> 7, ''b'' \<mapsto> 0] = (Inr m, st'') \<and> m ''a'' = Some 7"
  using ecs_scale_then_read [OF example_ecs_describe example_ecs_update, where s = "''a''" and s' = "''a''" and n = 7
      and st = "[''a'' \<mapsto> 3, ''b'' \<mapsto> 0]" and st' = "[''a'' \<mapsto> 7, ''b'' \<mapsto> 0]" and ss = "[''a'', ''b'']" and cluster = "''c''"]
  by (simp add: ecs_adapter_def ecs_scale_def example_ecs_def in_int32_def wrap32_id fun_upd_twist)

text \<open>A desired count outside 32 bits is truncated, not rejected: a successful ECS scale sets the
  low 32 bits as the desired count, which is then never the count asked for.\<close>

theorem ecs_scale_truncates:
  assumes "ecs_update_ok client cluster cnt known"
    and "Scale (ecs_adapter client cluster) s n st = (Inr (), st')" "\<not> in_int32 n"
  shows "cnt st' s = wrap32 n \<and> cnt st' s \<noteq> n"
proof -
  have w: "in_int32 (wrap32 n)"
    using pos_mod_bound [of 4294967296 "n + 2147483648"] pos_mod_sign [of 4294967296 "n + 2147483648"]
    by (simp add: in_int32_def wrap32_eq)
  have "case UpdateService client cluster s (wrap32 n) st of
      (r, st') \<Rightarrow> known st' = known st \<and> (r = Inr () \<longrightarrow> in_int32 (wrap32 n) \<longrightarrow> cnt st' = (cnt st)(s := wrap32 n))"
    by (rule assms(1) [unfolded ecs_update_ok_def, THEN spec, THEN spec, THEN spec])
  with assms(2) w have "cnt st' = (cnt st)(s := wrap32 n)"
    by (auto simp: ecs_adapter_def ecs_scale_def split: sum.splits prod.splits)
  with w assms(3) show ?thesis by auto
qed

theorem ecs_scale_truncates_witness:
  "\<exists>st'. Scale (ecs_adapter example_ecs ''c'') ''a'' 4294967296 [''a'' \<mapsto> 3] = (Inr (), st') \<and> memory_count st' ''a'' = 0"
proof -
  have s: "Scale (ecs_adapter example_ecs ''c'') ''a'' 4294967296 [''a'' \<mapsto> 3] = (Inr (), [''a'' \<mapsto> 3, ''a'' \<mapsto> 0])"
    by (simp add: ecs_adapter_def ecs_scale_def example_ecs_def wrap32_eq)
  from ecs_scale_truncates [OF example_ecs_update s] s show ?thesis
    by (simp add: in_int32_def wrap32_eq)
qed

end
