(* ===== verification/Observability.thy ===== *)
theory Observability
  imports Adapter
begin

text \<open>
  The HTTP server's health endpoints and the exported metrics (\<^verbatim>\<open>internal/server/server.go\<close>).
  The Prometheus client library is not part of the repository: a counter is the number of
  increments per label values, a gauge the last value set, a histogram the list of its
  observations. \<^verbatim>\<open>Duration.Seconds\<close> is exact here, as doubles are rationals in this model.
\<close>

section \<open>Exported metrics\<close>

record registry =
  scaleEventsTotal :: "string \<times> string \<rightharpoonup> nat"
  currentScale :: "string \<rightharpoonup> f64"
  desiredScale :: "string \<rightharpoonup> f64"
  reconcileLatency :: "string \<rightharpoonup> f64 list"
  metricAge :: "string \<times> string \<rightharpoonup> f64"
  windowEvaluationsTotal :: "string \<times> string \<times> string \<rightharpoonup> nat"
  cooldownActive :: "string \<times> string \<rightharpoonup> f64"

definition empty_registry :: registry where
  "empty_registry = \<lparr>scaleEventsTotal = Map.empty, currentScale = Map.empty, desiredScale = Map.empty,
     reconcileLatency = Map.empty, metricAge = Map.empty, windowEvaluationsTotal = Map.empty, cooldownActive = Map.empty\<rparr>"

definition inc :: "('k \<rightharpoonup> nat) \<Rightarrow> 'k \<Rightarrow> ('k \<rightharpoonup> nat)" where
  "inc m k = m(k \<mapsto> (case m k of None \<Rightarrow> 1 | Some n \<Rightarrow> Suc n))"

definition duration_seconds :: "duration \<Rightarrow> f64" where
  "duration_seconds d = Fin (rat_of_int d / 1000000000)"

definition record_scale_event_metric :: "string \<Rightarrow> string \<Rightarrow> registry \<Rightarrow> registry" where
  "record_scale_event_metric service direction g =
     g\<lparr>scaleEventsTotal := inc (scaleEventsTotal g) (service, direction)\<rparr>"

definition record_current_scale :: "string \<Rightarrow> int \<Rightarrow> registry \<Rightarrow> registry" where
  "record_current_scale service n g = g\<lparr>currentScale := (currentScale g)(service \<mapsto> int_to_f64 n)\<rparr>"

definition record_desired_scale :: "string \<Rightarrow> int \<Rightarrow> registry \<Rightarrow> registry" where
  "record_desired_scale service n g = g\<lparr>desiredScale := (desiredScale g)(service \<mapsto> int_to_f64 n)\<rparr>"

definition record_reconcile_latency :: "string \<Rightarrow> duration \<Rightarrow> registry \<Rightarrow> registry" where
  "record_reconcile_latency service d g =
     g\<lparr>reconcileLatency := (reconcileLatency g)(service \<mapsto>
        (case reconcileLatency g service of None \<Rightarrow> [] | Some os \<Rightarrow> os) @ [duration_seconds d])\<rparr>"

definition record_metric_age :: "string \<Rightarrow> string \<Rightarrow> duration \<Rightarrow> registry \<Rightarrow> registry" where
  "record_metric_age service metric age g =
     (let seconds = duration_seconds age;
          seconds = (if f64_less seconds (Fin 0) then Fin 0 else seconds)
      in g\<lparr>metricAge := (metricAge g)((service, metric) \<mapsto> seconds)\<rparr>)"

definition record_window_evaluation :: "string \<Rightarrow> string \<Rightarrow> string \<Rightarrow> registry \<Rightarrow> registry" where
  "record_window_evaluation service direction result g =
     g\<lparr>windowEvaluationsTotal := inc (windowEvaluationsTotal g) (service, direction, result)\<rparr>"

definition record_cooldown_active :: "string \<Rightarrow> string \<Rightarrow> bool \<Rightarrow> registry \<Rightarrow> registry" where
  "record_cooldown_active service direction active g =
     g\<lparr>cooldownActive := (cooldownActive g)((service, direction) \<mapsto> (if active then Fin 1 else Fin 0))\<rparr>"

section \<open>Health\<close>

record health_server =
  healthCacheTime :: time
  healthCacheErr :: "adapter_error option"

definition new_server :: health_server where
  "new_server = \<lparr>healthCacheTime = 0, healthCacheErr = None\<rparr>"

definition healthCacheTTL :: duration where
  "healthCacheTTL = 10 * second"

definition health_fresh :: "health_server \<Rightarrow> time \<Rightarrow> bool" where
  "health_fresh srv now \<longleftrightarrow> time_sub now (healthCacheTime srv) < healthCacheTTL"

text \<open>\<open>now\<close> is the reading before the check, \<open>done_at\<close> the one after it. One probe at a time; probes that
  overlap are the subject of \<^theory_text>\<open>Health_Probes\<close>.\<close>

definition get_cached_health ::
  "'a adapter_api \<Rightarrow> time \<Rightarrow> time \<Rightarrow> health_server \<Rightarrow> 'a \<Rightarrow> adapter_error option \<times> health_server \<times> 'a" where
  "get_cached_health api now done_at srv st =
     (if health_fresh srv now then (healthCacheErr srv, srv, st)
      else (case HealthCheck api st of
              (r, st1) \<Rightarrow>
                let err = (case r of Inl e \<Rightarrow> Some e | Inr _ \<Rightarrow> None)
                in (err, srv\<lparr>healthCacheTime := done_at, healthCacheErr := err\<rparr>, st1)))"

fun adapter_error_text :: "adapter_error \<Rightarrow> string" where
  "adapter_error_text (DescribeServiceFailed e) = ''describe service: '' @ e"
| "adapter_error_text (ServiceNotFound s) = ''service not found: '' @ s"
| "adapter_error_text (DescribeServicesFailed e) = ''describe services: '' @ e"
| "adapter_error_text (UpdateServiceFailed e) = ''update service: '' @ e"
| "adapter_error_text (DescribeClusterFailed e) = ''describe cluster: '' @ e"
| "adapter_error_text (ClusterNotFound c) = ''cluster not found: '' @ c"
| "adapter_error_text (ClusterNotActive s) = ''cluster not active: '' @ s"
| "adapter_error_text (LoadAWSConfigFailed e) = ''load AWS config: '' @ e"
| "adapter_error_text (UnknownAdapter t) = ''unknown adapter type: '' @ t"

definition handle_healthz :: "nat \<times> string" where
  "handle_healthz = (200, ''ok'')"

definition handle_readyz ::
  "'a adapter_api \<Rightarrow> time \<Rightarrow> time \<Rightarrow> health_server \<Rightarrow> 'a \<Rightarrow> (nat \<times> string) \<times> health_server \<times> 'a" where
  "handle_readyz api now done_at srv st =
     (case get_cached_health api now done_at srv st of
        (err, srv1, st1) \<Rightarrow>
          ((case err of
              Some e \<Rightarrow> (503, ''adapter unhealthy: '' @ adapter_error_text e)
            | None \<Rightarrow> (200, ''ok'')), srv1, st1))"

text \<open>The routes \<^verbatim>\<open>New\<close> registers. A pattern without a trailing slash matches exactly its path; \<open>render\<close>
  is the handler of the Prometheus client library, which reads the registry.\<close>

datatype endpoint = Healthz | Readyz | MetricsPage

definition server_mux :: "(string \<times> endpoint) list" where
  "server_mux = [(''/healthz'', Healthz), (''/readyz'', Readyz), (''/metrics'', MetricsPage)]"

definition serve_http ::
  "(registry \<Rightarrow> nat \<times> string) \<Rightarrow> 'a adapter_api \<Rightarrow> registry \<Rightarrow> string \<Rightarrow> time \<Rightarrow> time \<Rightarrow> health_server \<Rightarrow> 'a
   \<Rightarrow> (nat \<times> string) \<times> health_server \<times> 'a" where
  "serve_http render api g path now done_at srv st =
     (case map_of server_mux path of
        Some Healthz \<Rightarrow> (handle_healthz, srv, st)
      | Some Readyz \<Rightarrow> handle_readyz api now done_at srv st
      | Some MetricsPage \<Rightarrow> (render g, srv, st)
      | None \<Rightarrow> ((404, ''404 page not found''), srv, st))"

text \<open>Only the readiness endpoint may touch the platform, and only when the cached verdict has expired.\<close>

lemma serve_http_frame:
  "path \<noteq> ''/readyz'' \<or> health_fresh srv now \<Longrightarrow> snd (serve_http render api g path now done_at srv st) = (srv, st)"
  by (auto simp: serve_http_def server_mux_def handle_readyz_def get_cached_health_def)

section \<open>A run of probes\<close>

text \<open>The probes that called the adapter, with the reading before and the reading after the call.\<close>

fun health_checks :: "'a adapter_api \<Rightarrow> health_server \<Rightarrow> 'a \<Rightarrow> (time \<times> time) list \<Rightarrow> (time \<times> time) list" where
  "health_checks api srv st [] = []"
| "health_checks api srv st ((now, done_at) # probes) =
     (case get_cached_health api now done_at srv st of
        (_, srv1, st1) \<Rightarrow>
          (if health_fresh srv now then [] else [(now, done_at)]) @ health_checks api srv1 st1 probes)"

lemma health_not_fresh: "\<not> health_fresh srv now \<Longrightarrow> healthCacheTime srv + 10 * second \<le> now"
  using time_sub_le_iff [of "10 * second" now "healthCacheTime srv"]
  by (simp add: health_fresh_def healthCacheTTL_def second_def)

lemma get_cached_health_time:
  "get_cached_health api now done_at srv st = (e, srv1, st1) \<Longrightarrow>
   healthCacheTime srv1 = (if health_fresh srv now then healthCacheTime srv else done_at)"
  by (auto simp: get_cached_health_def Let_def split: if_splits prod.splits)

lemma health_checks_after:
  "(now, done_at) \<in> set (health_checks api srv st probes) \<Longrightarrow>
   \<forall>(t, u) \<in> set probes. t \<le> u \<Longrightarrow> sorted_wrt (\<lambda>p q. snd p \<le> fst q) probes \<Longrightarrow>
   healthCacheTime srv \<le> fst (hd probes) \<Longrightarrow> healthCacheTime srv + 10 * second \<le> now"
proof (induction probes arbitrary: srv st)
  case (Cons p probes)
  obtain t u where p: "p = (t, u)" by (cases p)
  obtain e srv1 st1 where g: "get_cached_health api t u srv st = (e, srv1, st1)" by (metis prod_cases3)
  note ct = get_cached_health_time [OF g]
  show ?case
  proof (cases "(now, done_at) \<in> set (health_checks api srv1 st1 probes)")
    case False
    with Cons.prems(1) g p have "\<not> health_fresh srv t" "now = t" by (auto split: if_splits)
    then show ?thesis using health_not_fresh by simp
  next
    case True
    then have ne: "probes \<noteq> []" by auto
    then have "u \<le> fst (hd probes)" "t \<le> u" using Cons.prems p by auto
    moreover have "healthCacheTime srv \<le> t" using Cons.prems p by simp
    ultimately have "healthCacheTime srv1 \<le> fst (hd probes)" "healthCacheTime srv \<le> healthCacheTime srv1"
      using ct by (auto split: if_splits)
    with Cons.IH [OF True] Cons.prems show ?thesis by auto
  qed
qed simp

section \<open>Properties\<close>

text \<open>Readiness probes do not load the platform: however often \<^verbatim>\<open>/readyz\<close> is probed, one probe at
  a time and with a clock that never runs backwards, a health check starts no earlier than ten
  seconds after the previous one was answered.\<close>

theorem health_checks_rate_limited:
  assumes "\<forall>(t, u) \<in> set probes. 0 \<le> t \<and> t \<le> u" "sorted_wrt (\<lambda>p q. snd p \<le> fst q) probes"
  shows "sorted_wrt (\<lambda>p q. snd p + 10 * second \<le> fst q) (health_checks api new_server st probes)"
proof -
  have "sorted_wrt (\<lambda>p q. snd p + 10 * second \<le> fst q) (health_checks api srv st probes)"
    if "probes = [] \<or> healthCacheTime srv \<le> fst (hd probes)" "\<forall>(t, u) \<in> set probes. t \<le> u"
      "sorted_wrt (\<lambda>p q. snd p \<le> fst q) probes" for srv
    using that
  proof (induction probes arbitrary: srv st)
    case (Cons p probes)
    obtain t u where p: "p = (t, u)" by (cases p)
    obtain e srv1 st1 where g: "get_cached_health api t u srv st = (e, srv1, st1)" by (metis prod_cases3)
    note ct = get_cached_health_time [OF g]
    have next_ok: "probes = [] \<or> healthCacheTime srv1 \<le> fst (hd probes)"
      using Cons.prems p ct by (cases probes) (auto split: if_splits)
    then have rest: "sorted_wrt (\<lambda>p q. snd p + 10 * second \<le> fst q) (health_checks api srv1 st1 probes)"
      using Cons by auto
    have "u + 10 * second \<le> fst q" if "\<not> health_fresh srv t" "q \<in> set (health_checks api srv1 st1 probes)" for q
    proof -
      have "probes \<noteq> []" using that(2) by auto
      then show ?thesis
        using health_checks_after [of "fst q" "snd q" api srv1 st1 probes] that ct next_ok Cons.prems by auto
    qed
    with rest show ?case using g p by auto
  qed simp
  moreover have "probes = [] \<or> healthCacheTime new_server \<le> fst (hd probes)"
    using assms(1) by (cases probes) (auto simp: new_server_def)
  ultimately show ?thesis using assms by auto
qed

theorem health_checks_rate_limited_witness:
  "sorted_wrt (\<lambda>p q. snd p + 10 * second \<le> fst q)
     (health_checks memory_adapter new_server new_memory_adapter [(unix_epoch, unix_epoch), (unix_epoch + 5, unix_epoch + 5), (unix_epoch + minute, unix_epoch + minute)])"
  by (rule health_checks_rate_limited) (simp_all add: time_units)

text \<open>Readiness is the adapter's health: a probe answers 200 exactly when the cached verdict, or a
  fresh check if the verdict is older than ten seconds, is healthy; the verdict of a fresh
  check is what every probe of the next ten seconds answers, without another check.\<close>

theorem readiness_cached_verdict:
  assumes "\<not> health_fresh srv now" "HealthCheck api st = (r, st1)"
    and "handle_readyz api now done_at srv st = (resp, srv1, st')"
    and "done_at \<le> later" "later < done_at + 10 * second"
  shows "st' = st1 \<and> (fst resp = 200 \<longleftrightarrow> r = Inr ())
    \<and> handle_readyz api later later_done srv1 st2 = (resp, srv1, st2)"
proof -
  let ?err = "case r of Inl e \<Rightarrow> Some e | Inr _ \<Rightarrow> None"
  have g: "get_cached_health api now done_at srv st = (?err, srv\<lparr>healthCacheTime := done_at, healthCacheErr := ?err\<rparr>, st1)"
    using assms(1,2) by (simp add: get_cached_health_def Let_def)
  have fresh: "health_fresh (srv\<lparr>healthCacheTime := done_at, healthCacheErr := ?err\<rparr>) later"
    using assms(4,5) by (simp add: health_fresh_def healthCacheTTL_def time_sub_def second_def)
  show ?thesis
    using assms(3) fresh g by (cases r) (auto simp: handle_readyz_def get_cached_health_def)
qed

theorem readiness_cached_verdict_witness:
  "fst (fst (handle_readyz (ecs_adapter example_ecs ''c'') (unix_epoch + 5) 0
     \<lparr>healthCacheTime = unix_epoch, healthCacheErr = Some (ClusterNotFound ''c'')\<rparr> Map.empty)) = 503"
proof -
  let ?api = "ecs_adapter example_ecs ''c''"
  have h: "HealthCheck ?api Map.empty = (Inl (ClusterNotFound ''c''), Map.empty)"
    by (simp add: ecs_adapter_def ecs_health_def example_ecs_def)
  have n: "\<not> health_fresh new_server unix_epoch"
    by (simp add: health_fresh_def new_server_def healthCacheTTL_def time_sub_def time_units)
  obtain resp srv1 st' where r: "handle_readyz ?api unix_epoch unix_epoch new_server Map.empty = (resp, srv1, st')"
    by (metis prod_cases3)
  have "st' = Map.empty \<and> (fst resp = 200 \<longleftrightarrow> (Inl (ClusterNotFound ''c'') :: adapter_error + unit) = Inr ())
    \<and> handle_readyz ?api (unix_epoch + 5) 0 srv1 Map.empty = (resp, srv1, Map.empty)"
    by (rule readiness_cached_verdict [OF n h r]) (simp_all add: second_def)
  moreover have "srv1 = \<lparr>healthCacheTime = unix_epoch, healthCacheErr = Some (ClusterNotFound ''c'')\<rparr>"
    "fst resp = 503"
    using r n h by (auto simp: handle_readyz_def get_cached_health_def new_server_def Let_def)
  ultimately show ?thesis by simp
qed

end
