(* ===== verification/Prometheus_Source.thy ===== *)
theory Prometheus_Source
  imports Sample_Series
begin

text \<open>
  Prometheus sources (\<^verbatim>\<open>internal/metrics/prometheus.go\<close>). The HTTP client library is not part of
  the repository: a source holds the query call the library returns for an address and an
  optional bearer token. Values and timestamps are those of the library's result, converted.
\<close>

datatype prom_value = PromVector "(f64 \<times> time) list" | PromScalar f64 time | PromOther string

datatype prom_error =
    PromQueryFailed string | PromManySeries nat | PromUnexpectedType string
  | ReadTokenFailed string | CreateClientFailed string

type_synonym prom_api = "string \<Rightarrow> time \<Rightarrow> string + prom_value \<times> string list"

record prometheus_source =
  psName :: string
  psAddress :: string
  psApi :: prom_api

section \<open>Requests\<close>

record prom_request =
  rqUrl :: string
  rqHeaders :: "string \<rightharpoonup> string list"

text \<open>\<^verbatim>\<open>bearerAuthTransport.RoundTrip\<close>: the clone of the request carries the token, the original
  stays as it is. \<open>rt\<close> is the wrapped transport.\<close>

definition bearer_round_trip :: "string \<Rightarrow> (prom_request \<Rightarrow> 'r) \<Rightarrow> prom_request \<Rightarrow> 'r" where
  "bearer_round_trip token rt req = rt (req\<lparr>rqHeaders := (rqHeaders req)(''Authorization'' \<mapsto> [''Bearer '' @ token])\<rparr>)"

text \<open>\<open>newClient\<close> takes the address and the transport of the client to build.\<close>

definition new_prometheus_source ::
  "(string \<Rightarrow> string + string) \<Rightarrow> (prom_request \<Rightarrow> 'r) \<Rightarrow> (string \<Rightarrow> (prom_request \<Rightarrow> 'r) \<Rightarrow> string + prom_api)
   \<Rightarrow> string \<Rightarrow> string \<Rightarrow> string \<Rightarrow> prom_error + prometheus_source" where
  "new_prometheus_source readFile defaultTransport newClient name address bearerTokenFile =
     (case (if bearerTokenFile \<noteq> '''' then map_sum id (\<lambda>token. bearer_round_trip token defaultTransport) (readFile bearerTokenFile)
            else Inr defaultTransport) of
        Inl e \<Rightarrow> Inl (ReadTokenFailed e)
      | Inr transport \<Rightarrow>
          (case newClient address transport of
             Inl e \<Rightarrow> Inl (CreateClientFailed e)
           | Inr client \<Rightarrow> Inr \<lparr>psName = name, psAddress = address, psApi = client\<rparr>))"

section \<open>Queries\<close>

text \<open>\<open>Inr None\<close> is a missing value.\<close>

definition prom_query :: "prometheus_source \<Rightarrow> string \<Rightarrow> time \<Rightarrow> prom_error + sample option" where
  "prom_query p query evaluationTime =
     (case psApi p query evaluationTime of
        Inl e \<Rightarrow> Inl (PromQueryFailed e)
      | Inr (result, warnings) \<Rightarrow>
          (case result of
             PromVector value \<Rightarrow>
               (if length value = 0 then Inr None
                else if length value = 1
                then Inr (Some \<lparr>sampleValue = fst (value ! 0), observedAt = snd (value ! 0)\<rparr>)
                else Inl (PromManySeries (length value)))
           | PromScalar v t \<Rightarrow> Inr (Some \<lparr>sampleValue = v, observedAt = t\<rparr>)
           | PromOther ty \<Rightarrow> Inl (PromUnexpectedType ty)))"

section \<open>Properties\<close>

text \<open>A query gives a sample only for an unambiguous answer: it returns \<open>x\<close> exactly when the
  server answered with the one series or the scalar that \<open>x\<close> is, warnings or not; in particular
  several series are never merged and an empty vector is no sample and no error.\<close>

theorem prom_sample_iff:
  "prom_query p query evaluationTime = Inr (Some x) \<longleftrightarrow>
     (\<exists>warnings. psApi p query evaluationTime = Inr (PromVector [(sampleValue x, observedAt x)], warnings)
        \<or> psApi p query evaluationTime = Inr (PromScalar (sampleValue x) (observedAt x), warnings))"
proof (cases "psApi p query evaluationTime")
  case (Inr a)
  obtain r w where a: "a = (r, w)" by (cases a)
  have eq: "x = \<lparr>sampleValue = v, observedAt = t\<rparr> \<longleftrightarrow> v = sampleValue x \<and> t = observedAt x" for v t
    by (cases x) auto
  have one: "vs = [(sampleValue x, observedAt x)] \<longleftrightarrow> length vs = 1 \<and> fst (vs ! 0) = sampleValue x \<and> snd (vs ! 0) = observedAt x"
    for vs by (cases vs) auto
  show ?thesis
    using Inr a one eq by (cases r) (auto simp: prom_query_def)
qed (simp add: prom_query_def)

end
