(* ===== verification/Reconciler.thy ===== *)
theory Reconciler
  imports Config_Build Observability Prometheus_Source
begin

text \<open>
  The reconciler (\<^verbatim>\<open>internal/reconciler/reconciler.go\<close>): the arithmetic of a decision, the
  cooldowns, the reconciliation of one service, a tick and the loop. The environment of a run
  is a record: the successive readings of the clock, the iteration order of maps, the
  expression engine and the time zones. The log line that ends the reconciliation of a
  service is its outcome. A panic is \<open>None\<close>.
\<close>

section \<open>State\<close>

datatype scale_direction = ScaleNone | ScaleUp | ScaleDown

fun direction_string :: "scale_direction \<Rightarrow> string" where
  "direction_string ScaleUp = ''up''"
| "direction_string ScaleDown = ''down''"
| "direction_string ScaleNone = ''none''"

record service_state =
  lastUpscaleTime :: time
  lastDownscaleTime :: time

record 'p run_env =
  envClock :: "nat \<Rightarrow> time"
  envOrder :: "series_map \<Rightarrow> series_map"
  envEngine :: "'p expr_engine"
  envZones :: "string \<Rightarrow> location option"

record 'a reconciler =
  rcAdapter :: "'a adapter_api"
  rcPromSources :: "(string \<times> prometheus_source) list"
  rcInterval :: duration
  rcDryRun :: bool

text \<open>What changes: the readings of the clock so far, the scaling state per service name, the
  metric store, the platform and the exported metrics.\<close>

record 'a run_state =
  rsReads :: nat
  rsState :: "string \<rightharpoonup> service_state"
  rsStore :: metric_store
  rsPlatform :: 'a
  rsRegistry :: registry

definition new_reconciler ::
  "'a adapter_api \<Rightarrow> (string \<times> prometheus_source) list \<Rightarrow> duration \<Rightarrow> bool \<Rightarrow> 'a reconciler" where
  "new_reconciler adp promSources interval dryRun =
     \<lparr>rcAdapter = adp, rcPromSources = promSources,
      rcInterval = (if interval = 0 then 10 * second else interval), rcDryRun = dryRun\<rparr>"

definition initial_state :: "metric_store \<Rightarrow> 'a \<Rightarrow> 'a run_state" where
  "initial_state store platform =
     \<lparr>rsReads = 0, rsState = Map.empty, rsStore = store, rsPlatform = platform, rsRegistry = empty_registry\<rparr>"

definition read_clock :: "'p run_env \<Rightarrow> 'a run_state \<Rightarrow> time \<times> 'a run_state" where
  "read_clock env st = (envClock env (rsReads st), st\<lparr>rsReads := Suc (rsReads st)\<rparr>)"

definition record_metric :: "(registry \<Rightarrow> registry) \<Rightarrow> 'a run_state \<Rightarrow> 'a run_state" where
  "record_metric f st = st\<lparr>rsRegistry := f (rsRegistry st)\<rparr>"

section \<open>The arithmetic of a decision\<close>

fun downscale_loop :: "int \<Rightarrow> int \<Rightarrow> scale_decision list \<Rightarrow> int" where
  "downscale_loop current downscaleTarget [] = downscaleTarget"
| "downscale_loop current downscaleTarget (d # ds) =
     (if desiredCount d \<ge> current then current
      else downscale_loop current (if desiredCount d > downscaleTarget then desiredCount d else downscaleTarget) ds)"

definition compute_desired :: "int \<Rightarrow> scale_decision list \<Rightarrow> int" where
  "compute_desired current decisions =
     (let maxDesired = foldl (\<lambda>m d. if desiredCount d > m then desiredCount d else m) current decisions
      in if maxDesired > current then maxDesired else downscale_loop current 0 decisions)"

definition clamp :: "int \<Rightarrow> int \<Rightarrow> int \<Rightarrow> int" where
  "clamp val mn mx = (if val < mn then mn else if val > mx then mx else val)"

definition active_bounds :: "(string \<Rightarrow> location option) \<Rightarrow> 'p service \<Rightarrow> time \<Rightarrow> int \<times> int" where
  "active_bounds tzdb svc now =
     (case sSchedule svc of
        None \<Rightarrow> (sMinCount svc, sMaxCount svc)
      | Some sch \<Rightarrow>
          (case get_active_bounds tzdb sch now of
             None \<Rightarrow> (sMinCount svc, sMaxCount svc)
           | Some b \<Rightarrow> b))"

section \<open>Cooldowns\<close>

definition can_scale ::
  "'p run_env \<Rightarrow> 'p service \<Rightarrow> int \<Rightarrow> scale_direction \<Rightarrow> 'a run_state \<Rightarrow> bool \<times> 'a run_state" where
  "can_scale env svc current direction st =
     (case rsState st (sName svc) of
        None \<Rightarrow> (True, st)
      | Some s \<Rightarrow>
          if current = 0 \<and> direction = ScaleUp then (True, st)
          else (case read_clock env st of
                  (now, st1) \<Rightarrow>
                    ((case direction of
                        ScaleUp \<Rightarrow> time_is_zero (lastUpscaleTime s)
                          \<or> time_sub now (lastUpscaleTime s) \<ge> cdUpscale (sCooldown svc)
                      | ScaleDown \<Rightarrow> time_is_zero (lastDownscaleTime s)
                          \<or> time_sub now (lastDownscaleTime s) \<ge> cdDownscale (sCooldown svc)
                      | ScaleNone \<Rightarrow> True), st1)))"

text \<open>\<^verbatim>\<open>p.Reset\<close> on a nil policy panics; a service whose policies were evaluated has none.\<close>

definition record_scale_event ::
  "'p service \<Rightarrow> scale_direction \<Rightarrow> time \<Rightarrow> 'a run_state \<Rightarrow> 'p service \<times> 'a run_state" where
  "record_scale_event svc direction now st =
     (let s = (case rsState st (sName svc) of
                 None \<Rightarrow> \<lparr>lastUpscaleTime = 0, lastDownscaleTime = 0\<rparr>
               | Some s \<Rightarrow> s);
          s1 = (case direction of
                  ScaleUp \<Rightarrow> s\<lparr>lastUpscaleTime := now\<rparr>
                | ScaleDown \<Rightarrow> s\<lparr>lastDownscaleTime := now\<rparr>
                | ScaleNone \<Rightarrow> s)
      in (svc\<lparr>sPolicies := map (map_option (policy_reset now)) (sPolicies svc)\<rparr>,
          st\<lparr>rsState := (rsState st)(sName svc \<mapsto> s1)\<rparr>))"

section \<open>Evaluating the policies\<close>

fun record_ages :: "string \<Rightarrow> snapshot \<Rightarrow> time \<Rightarrow> string list \<Rightarrow> string set \<Rightarrow> registry \<Rightarrow> registry" where
  "record_ages service sn now [] seen g = g"
| "record_ages service sn now (name # names) seen g =
     (if name \<in> seen then record_ages service sn now names seen g
      else record_ages service sn now names (insert name seen)
        (case Latest sn (MetricKey service name) of
           None \<Rightarrow> g
         | Some x \<Rightarrow> record_metric_age service name (time_sub now (observedAt x)) g))"

definition record_windows :: "window_evaluation list \<Rightarrow> registry \<Rightarrow> registry" where
  "record_windows windows g =
     foldl (\<lambda>g w. record_window_evaluation (weService w) (weDirection w) (weResult w) g) g windows"

text \<open>The loop over the policies: a failing policy is skipped, a nil one panics.\<close>

fun evaluate_policies ::
  "'p expr_engine \<Rightarrow> 'p policy option list \<Rightarrow> int \<Rightarrow> snapshot \<Rightarrow> time
   \<Rightarrow> (scale_decision list \<times> window_evaluation list) option" where
  "evaluate_policies eng [] current sn now = Some ([], [])"
| "evaluate_policies eng (None # ps) current sn now = None"
| "evaluate_policies eng (Some p # ps) current sn now =
     do {
       r \<leftarrow> policy_evaluate eng p current sn now;
       (ds, ws) \<leftarrow> evaluate_policies eng ps current sn now;
       Some (case r of
               Inl _ \<Rightarrow> (ds, ws)
             | Inr ev \<Rightarrow> ((case evDecision ev of None \<Rightarrow> ds | Some d \<Rightarrow> d # ds), evWindows ev @ ws))
     }"

fun all_required :: "'p policy option list \<Rightarrow> string list option" where
  "all_required [] = Some []"
| "all_required (None # ps) = None"
| "all_required (Some p # ps) = map_option (\<lambda>names. required_metrics p @ names) (all_required ps)"

section \<open>Reconciling one service\<close>

text \<open>The log line or error a reconciliation ends with.\<close>

datatype outcome =
    NoDecisions
  | Held
  | InCooldown scale_direction int
  | DryRunScale scale_direction int
  | Scaled scale_direction int
  | ScaleFailed adapter_error

text \<open>Steps 8 and 9: execute the scale, record it.\<close>

definition execute_scale ::
  "'a reconciler \<Rightarrow> 'p service \<Rightarrow> scale_direction \<Rightarrow> int \<Rightarrow> time \<Rightarrow> 'a run_state
   \<Rightarrow> outcome \<times> 'p service \<times> 'a run_state" where
  "execute_scale rc svc direction desired now st =
     (let finish = (\<lambda>result st.
            case record_scale_event svc direction now
                   (record_metric (record_scale_event_metric (sName svc) (direction_string direction)) st) of
              (svc', st') \<Rightarrow> (result, svc', st'))
      in if rcDryRun rc then finish (DryRunScale direction desired) st
         else (case Scale (rcAdapter rc) (sIdentifier svc) desired (rsPlatform st) of
                 (Inl e, platform) \<Rightarrow> (ScaleFailed e, svc, st\<lparr>rsPlatform := platform\<rparr>)
               | (Inr _, platform) \<Rightarrow> finish (Scaled direction desired) (st\<lparr>rsPlatform := platform\<rparr>)))"

text \<open>Steps 3 to 7: the desired count, its bounds, the direction, the cooldown.\<close>

definition apply_decisions ::
  "'a reconciler \<Rightarrow> 'p run_env \<Rightarrow> 'p service \<Rightarrow> int \<Rightarrow> time \<Rightarrow> int \<times> int \<Rightarrow> scale_decision list
   \<Rightarrow> 'a run_state \<Rightarrow> outcome \<times> 'p service \<times> 'a run_state" where
  "apply_decisions rc env svc current now bounds decisions st =
     (if decisions = [] then (NoDecisions, svc, st)
      else
        let desired = clamp (compute_desired current decisions) (fst bounds) (snd bounds);
            st1 = record_metric (record_desired_scale (sName svc) desired) st
        in if desired = current then (Held, svc, st1)
           else
             let direction = (if desired < current then ScaleDown else ScaleUp) in
             (case can_scale env svc current direction st1 of
                (ok, st2) \<Rightarrow>
                  let st3 = record_metric (record_cooldown_active (sName svc) (direction_string direction) (\<not> ok)) st2
                  in if \<not> ok then (InCooldown direction desired, svc, st3)
                     else execute_scale rc svc direction desired now st3))"

definition reconcile_service ::
  "'a reconciler \<Rightarrow> 'p run_env \<Rightarrow> 'p service \<Rightarrow> int \<Rightarrow> 'a run_state \<Rightarrow> (outcome \<times> 'p service \<times> 'a run_state) option" where
  "reconcile_service rc env svc current st =
     (case read_clock env st of
        (now, st1) \<Rightarrow>
          (case read_clock env (record_metric (record_current_scale (sName svc) current) st1) of
             (snapshot_time, st2) \<Rightarrow>
               (case store_snapshot (envOrder env) snapshot_time (rsStore st2) of
                  (m, store) \<Rightarrow>
                    do {
                      let sn = metric_snapshot m;
                      names \<leftarrow> all_required (sPolicies svc);
                      let st3 = record_metric (record_ages (sName svc) sn now names {}) (st2\<lparr>rsStore := store\<rparr>);
                      let bounds = active_bounds (envZones env) svc now;
                      (decisions, windows) \<leftarrow> evaluate_policies (envEngine env) (sPolicies svc) current sn now;
                      let (result, svc', st4) =
                        apply_decisions rc env svc current now bounds decisions
                          (record_metric (record_windows windows) st3);
                      let (finished, st5) = read_clock env st4;
                      Some (result, svc',
                        record_metric (record_reconcile_latency (sName svc) (time_sub finished now)) st5)
                    })))"

section \<open>Polling, ticks, the loop\<close>

text \<open>\<^verbatim>\<open>Add\<close> refuses a sample without a name, a time or a finite value before it reads the clock.\<close>

definition store_add_clocked :: "'p run_env \<Rightarrow> metric_key \<Rightarrow> sample \<Rightarrow> 'a run_state \<Rightarrow> 'a run_state" where
  "store_add_clocked env key x st =
     (if sample_malformed key x then st
      else (case read_clock env st of
              (now, st1) \<Rightarrow> st1\<lparr>rsStore := snd (store_add (envOrder env) now key x (rsStore st1))\<rparr>))"

definition poll_binding ::
  "'a reconciler \<Rightarrow> 'p run_env \<Rightarrow> time \<Rightarrow> string \<Rightarrow> 'a run_state \<Rightarrow> metric_binding \<Rightarrow> 'a run_state" where
  "poll_binding rc env evaluationTime service st mb =
     (if \<not> has_prefix (mbSource mb) ''prometheus.'' then st
      else (case map_of (rcPromSources rc) (trim_prefix (mbSource mb) ''prometheus.'') of
              None \<Rightarrow> st
            | Some src \<Rightarrow>
                (case prom_query src (mbQuery mb) evaluationTime of
                   Inl _ \<Rightarrow> st
                 | Inr None \<Rightarrow> st
                 | Inr (Some x) \<Rightarrow> store_add_clocked env (MetricKey service (mbName mb)) x st)))"

definition poll_prometheus_metrics ::
  "'a reconciler \<Rightarrow> 'p run_env \<Rightarrow> 'p service list \<Rightarrow> 'a run_state \<Rightarrow> 'a run_state" where
  "poll_prometheus_metrics rc env svcs st =
     (if length (rcPromSources rc) = 0 then st
      else (case read_clock env st of
              (evaluationTime, st1) \<Rightarrow>
                foldl (\<lambda>st svc. foldl (poll_binding rc env evaluationTime (sName svc)) st (sMetrics svc)) st1 svcs))"

fun reconcile_all ::
  "'a reconciler \<Rightarrow> 'p run_env \<Rightarrow> (string \<rightharpoonup> int) \<Rightarrow> 'p service list \<Rightarrow> 'a run_state
   \<Rightarrow> (outcome list \<times> 'p service list \<times> 'a run_state) option" where
  "reconcile_all rc env counts [] st = Some ([], [], st)"
| "reconcile_all rc env counts (svc # svcs) st =
     do {
       (out, svc', st1) \<leftarrow> reconcile_service rc env svc (case counts (sIdentifier svc) of None \<Rightarrow> 0 | Some n \<Rightarrow> n) st;
       (outs, svcs', st2) \<leftarrow> reconcile_all rc env counts svcs st1;
       Some (out # outs, svc' # svcs', st2)
     }"

text \<open>A tick whose batch read fails ends there, with no outcome for any service.\<close>

definition tick ::
  "'a reconciler \<Rightarrow> 'p run_env \<Rightarrow> 'p service list \<times> 'a run_state \<Rightarrow> (outcome list \<times> 'p service list \<times> 'a run_state) option" where
  "tick rc env ss =
     (case ss of
        (svcs, st) \<Rightarrow>
          let st1 = poll_prometheus_metrics rc env svcs st in
          (case GetCurrentCounts (rcAdapter rc) (map sIdentifier svcs) (rsPlatform st1) of
             (Inl _, platform) \<Rightarrow> Some ([], svcs, st1\<lparr>rsPlatform := platform\<rparr>)
           | (Inr counts, platform) \<Rightarrow> reconcile_all rc env counts svcs (st1\<lparr>rsPlatform := platform\<rparr>)))"

fun ticks ::
  "'a reconciler \<Rightarrow> 'p run_env \<Rightarrow> nat \<Rightarrow> 'p service list \<times> 'a run_state \<Rightarrow> ('p service list \<times> 'a run_state) option" where
  "ticks rc env 0 ss = Some ss"
| "ticks rc env (Suc n) ss = do { (_, svcs, st) \<leftarrow> tick rc env ss; ticks rc env n (svcs, st) }"

text \<open>The loop until the context is done, after \<open>n\<close> firings of the ticker; \<^verbatim>\<open>NewTicker\<close> panics
  for an interval that is not positive.\<close>

definition run_loop ::
  "'a reconciler \<Rightarrow> 'p run_env \<Rightarrow> nat \<Rightarrow> 'p service list \<times> 'a run_state \<Rightarrow> ('p service list \<times> 'a run_state) option" where
  "run_loop rc env n ss = (if rcInterval rc \<le> 0 then None else ticks rc env (Suc n) ss)"

section \<open>The decision\<close>

lemma downscale_loop_eq:
  "downscale_loop current t ds =
     (if \<exists>d \<in> set ds. current \<le> desiredCount d then current else Max (insert t (desiredCount ` set ds)))"
proof (induction ds arbitrary: t)
  case (Cons d ds)
  have "Max (insert t (insert (desiredCount d) (desiredCount ` set ds))) = Max (insert (max t (desiredCount d)) (desiredCount ` set ds))"
    by (cases "ds = []") (simp_all add: max.assoc)
  moreover have "(if desiredCount d > t then desiredCount d else t) = max t (desiredCount d)" by simp
  ultimately show ?case using Cons [of "max t (desiredCount d)"] by simp
qed simp

lemma compute_desired_eq:
  assumes "ds \<noteq> []"
  shows "compute_desired current ds =
    (let D = desiredCount ` set ds in
     if current < Max D then Max D else if Max D = current then current else max 0 (Max D))"
proof -
  let ?D = "desiredCount ` set ds"
  have D: "finite ?D" "?D \<noteq> {}" using assms by simp_all
  have m: "(\<lambda>m d. if desiredCount d > m then desiredCount d else m) = (\<lambda>m d. max m (desiredCount d))"
    by (simp add: fun_eq_iff)
  have up: "foldl (\<lambda>m d. if desiredCount d > m then desiredCount d else m) current ds = max current (Max ?D)"
    unfolding m foldl_max using D by simp
  have "(\<exists>d \<in> set ds. current \<le> desiredCount d) \<longleftrightarrow> current \<le> Max ?D"
    using D by (simp add: Max_ge_iff)
  then have down: "downscale_loop current 0 ds = (if current \<le> Max ?D then current else max 0 (Max ?D))"
    unfolding downscale_loop_eq using D by simp
  show ?thesis
    unfolding compute_desired_def up down Let_def by auto
qed

section \<open>Frames\<close>

lemma record_metric_frame [simp]:
  "rsReads (record_metric f st) = rsReads st" "rsState (record_metric f st) = rsState st"
  "rsStore (record_metric f st) = rsStore st" "rsPlatform (record_metric f st) = rsPlatform st"
  "rsRegistry (record_metric f st) = f (rsRegistry st)"
  by (simp_all add: record_metric_def)

text \<open>Whether the cooldown lets a scale pass, at reading \<open>k\<close> of the clock.\<close>

definition cooldown_passed ::
  "'p run_env \<Rightarrow> 'p service \<Rightarrow> int \<Rightarrow> scale_direction \<Rightarrow> service_state option \<Rightarrow> nat \<Rightarrow> bool" where
  "cooldown_passed env svc current direction s k \<longleftrightarrow>
     (case s of
        None \<Rightarrow> True
      | Some s \<Rightarrow>
          (case direction of
             ScaleUp \<Rightarrow> current = 0 \<or> lastUpscaleTime s = 0
               \<or> time_sub (envClock env k) (lastUpscaleTime s) \<ge> cdUpscale (sCooldown svc)
           | ScaleDown \<Rightarrow> lastDownscaleTime s = 0
               \<or> time_sub (envClock env k) (lastDownscaleTime s) \<ge> cdDownscale (sCooldown svc)
           | ScaleNone \<Rightarrow> True))"

lemma can_scale_passed:
  "fst (can_scale env svc current direction st) \<longleftrightarrow>
     cooldown_passed env svc current direction (rsState st (sName svc)) (rsReads st)"
  by (cases direction)
     (auto simp: can_scale_def cooldown_passed_def read_clock_def time_is_zero_def split: option.splits)

lemma can_scale_frame:
  "rsState (snd (can_scale env svc current direction st)) = rsState st"
  "rsStore (snd (can_scale env svc current direction st)) = rsStore st"
  "rsPlatform (snd (can_scale env svc current direction st)) = rsPlatform st"
  by (auto simp: can_scale_def read_clock_def split: option.splits)

lemma can_scale_reads:
  "rsReads st \<le> rsReads (snd (can_scale env svc current direction st))"
  by (auto simp: can_scale_def read_clock_def split: option.splits)

text \<open>The state a recorded scale leaves.\<close>

definition recorded_state :: "scale_direction \<Rightarrow> time \<Rightarrow> service_state option \<Rightarrow> service_state" where
  "recorded_state direction now s =
     (let s = (case s of None \<Rightarrow> \<lparr>lastUpscaleTime = 0, lastDownscaleTime = 0\<rparr> | Some s \<Rightarrow> s) in
      case direction of
        ScaleUp \<Rightarrow> s\<lparr>lastUpscaleTime := now\<rparr>
      | ScaleDown \<Rightarrow> s\<lparr>lastDownscaleTime := now\<rparr>
      | ScaleNone \<Rightarrow> s)"

definition reset_policies :: "time \<Rightarrow> 'p service \<Rightarrow> 'p service" where
  "reset_policies now svc = svc\<lparr>sPolicies := map (map_option (policy_reset now)) (sPolicies svc)\<rparr>"

lemma record_scale_event_eq:
  "record_scale_event svc direction now st =
     (reset_policies now svc, st\<lparr>rsState := (rsState st)(sName svc \<mapsto> recorded_state direction now (rsState st (sName svc)))\<rparr>)"
  by (simp add: record_scale_event_def recorded_state_def reset_policies_def Let_def)

text \<open>What each outcome says about the services, the scaling state and the platform.\<close>

definition outcome_effect ::
  "'a reconciler \<Rightarrow> 'p service \<Rightarrow> time \<Rightarrow> outcome \<Rightarrow> 'p service \<Rightarrow> (string \<rightharpoonup> service_state) \<Rightarrow> 'a
   \<Rightarrow> (string \<rightharpoonup> service_state) \<Rightarrow> 'a \<Rightarrow> bool" where
  "outcome_effect rc svc now result svc' s a s' a' \<longleftrightarrow>
     (case result of
        Scaled direction n \<Rightarrow>
          \<not> rcDryRun rc \<and> Scale (rcAdapter rc) (sIdentifier svc) n a = (Inr (), a') \<and> svc' = reset_policies now svc
          \<and> s' = s(sName svc \<mapsto> recorded_state direction now (s (sName svc)))
      | DryRunScale direction n \<Rightarrow>
          rcDryRun rc \<and> a' = a \<and> svc' = reset_policies now svc
          \<and> s' = s(sName svc \<mapsto> recorded_state direction now (s (sName svc)))
      | ScaleFailed e \<Rightarrow>
          \<not> rcDryRun rc \<and> (\<exists>n. Scale (rcAdapter rc) (sIdentifier svc) n a = (Inl e, a')) \<and> svc' = svc \<and> s' = s
      | _ \<Rightarrow> a' = a \<and> svc' = svc \<and> s' = s)"

lemma execute_scale_effect:
  assumes "execute_scale rc svc direction desired now st = (result, svc', st')"
  shows "outcome_effect rc svc now result svc' (rsState st) (rsPlatform st) (rsState st') (rsPlatform st')"
    "result = Scaled direction desired \<or> result = DryRunScale direction desired \<or> (\<exists>e. result = ScaleFailed e)"
    "rsStore st' = rsStore st" "rsReads st' = rsReads st"
  using assms
  by (auto simp: execute_scale_def Let_def record_scale_event_eq outcome_effect_def
      split: if_splits sum.splits prod.splits)

definition direction_of :: "int \<Rightarrow> int \<Rightarrow> scale_direction" where
  "direction_of current desired = (if desired < current then ScaleDown else ScaleUp)"

text \<open>The four ways \<open>apply_decisions\<close> ends.\<close>

lemma apply_decisions_cases:
  fixes rc :: "'a reconciler"
  assumes "apply_decisions rc env svc current now bounds ds st = (result, svc', st')"
  defines "desired \<equiv> clamp (compute_desired current ds) (fst bounds) (snd bounds)"
  obtains (none) "ds = []" "result = NoDecisions" "svc' = svc" "st' = st"
  | (held) f where "ds \<noteq> []" "desired = current" "result = Held" "svc' = svc" "st' = record_metric f st"
  | (cooldown) f st2 where "ds \<noteq> []" "desired \<noteq> current" "result = InCooldown (direction_of current desired) desired"
      "svc' = svc" "st' = record_metric f st2" "rsState st2 = rsState st" "rsStore st2 = rsStore st"
      "rsPlatform st2 = rsPlatform st" "rsReads st \<le> rsReads st2"
      "\<not> cooldown_passed env svc current (direction_of current desired) (rsState st (sName svc)) (rsReads st)"
  | (scale) f st2 where "ds \<noteq> []" "desired \<noteq> current"
      "execute_scale rc svc (direction_of current desired) desired now (record_metric f st2) = (result, svc', st')"
      "rsState st2 = rsState st" "rsStore st2 = rsStore st" "rsPlatform st2 = rsPlatform st" "rsReads st \<le> rsReads st2"
      "cooldown_passed env svc current (direction_of current desired) (rsState st (sName svc)) (rsReads st)"
proof (cases "ds = [] \<or> desired = current")
  case True
  with assms none held show ?thesis by (auto simp: apply_decisions_def Let_def split: if_splits)
next
  case False
  let ?dir = "direction_of current desired"
  let ?st1 = "record_metric (record_desired_scale (sName svc) desired) st"
  obtain ok st2 where c: "can_scale env svc current ?dir ?st1 = (ok, st2)" by (metis surj_pair)
  note fr = can_scale_frame [of env svc current ?dir ?st1] can_scale_reads [of ?st1 env svc current ?dir]
    can_scale_passed [of env svc current ?dir ?st1]
  have eq: "apply_decisions rc env svc current now bounds ds st =
      (let st3 = record_metric (record_cooldown_active (sName svc) (direction_string ?dir) (\<not> ok)) st2
       in if \<not> ok then (InCooldown ?dir desired, svc, st3) else execute_scale rc svc ?dir desired now st3)"
    using False c by (simp add: apply_decisions_def Let_def desired_def direction_of_def)
  show ?thesis
  proof (cases ok)
    case True
    then show ?thesis
      using eq assms(1) False c fr by (intro scale) (auto simp: Let_def)
  next
    case no: False
    then show ?thesis
      using eq assms(1) False c fr by (intro cooldown) (auto simp: Let_def)
  qed
qed

lemma apply_decisions_effect:
  assumes "apply_decisions rc env svc current now bounds ds st = (result, svc', st')"
  shows "outcome_effect rc svc now result svc' (rsState st) (rsPlatform st) (rsState st') (rsPlatform st')"
    "rsStore st' = rsStore st" "rsReads st \<le> rsReads st'"
proof -
  from assms have "outcome_effect rc svc now result svc' (rsState st) (rsPlatform st) (rsState st') (rsPlatform st')
      \<and> rsStore st' = rsStore st \<and> rsReads st \<le> rsReads st'"
  proof (cases rule: apply_decisions_cases)
    case (scale f st2)
    then show ?thesis using execute_scale_effect [OF scale(3)] by simp
  qed (simp_all add: outcome_effect_def)
  then show "outcome_effect rc svc now result svc' (rsState st) (rsPlatform st) (rsState st') (rsPlatform st')"
    "rsStore st' = rsStore st" "rsReads st \<le> rsReads st'" by blast+
qed

text \<open>A change of scale is clamped, is a change, goes in its direction and passed the cooldown.\<close>

lemma apply_decisions_scaled:
  assumes "apply_decisions rc env svc current now bounds ds st = (result, svc', st')"
    and "result = Scaled d n \<or> result = DryRunScale d n"
  shows "n = clamp (compute_desired current ds) (fst bounds) (snd bounds)" "n \<noteq> current" "ds \<noteq> []"
    "d = direction_of current n" "cooldown_passed env svc current d (rsState st (sName svc)) (rsReads st)"
proof -
  from assms(1) have "n = clamp (compute_desired current ds) (fst bounds) (snd bounds) \<and> n \<noteq> current \<and> ds \<noteq> []
    \<and> d = direction_of current n \<and> cooldown_passed env svc current d (rsState st (sName svc)) (rsReads st)"
  proof (cases rule: apply_decisions_cases)
    case (scale f st2)
    then show ?thesis using execute_scale_effect(2) [OF scale(3)] assms(2) by auto
  qed (use assms(2) in auto)
  then show "n = clamp (compute_desired current ds) (fst bounds) (snd bounds)" "n \<noteq> current" "ds \<noteq> []"
    "d = direction_of current n" "cooldown_passed env svc current d (rsState st (sName svc)) (rsReads st)" by blast+
qed

section \<open>The reconciliation of a service, taken apart\<close>

definition reconcile_now :: "'p run_env \<Rightarrow> 'a run_state \<Rightarrow> time" where
  "reconcile_now env st = envClock env (rsReads st)"

definition reconcile_snapshot :: "'p run_env \<Rightarrow> 'a run_state \<Rightarrow> snapshot" where
  "reconcile_snapshot env st =
     metric_snapshot (fst (store_snapshot (envOrder env) (envClock env (Suc (rsReads st))) (rsStore st)))"

definition reconcile_bounds :: "'p run_env \<Rightarrow> 'p service \<Rightarrow> 'a run_state \<Rightarrow> int \<times> int" where
  "reconcile_bounds env svc st = active_bounds (envZones env) svc (reconcile_now env st)"

lemma reconcile_service_cases:
  assumes "reconcile_service rc env svc current st = Some (result, svc', st')"
  obtains ds ws sin sout where
    "all_required (sPolicies svc) \<noteq> None"
    "evaluate_policies (envEngine env) (sPolicies svc) current (reconcile_snapshot env st) (reconcile_now env st) = Some (ds, ws)"
    "apply_decisions rc env svc current (reconcile_now env st) (reconcile_bounds env svc st) ds sin = (result, svc', sout)"
    "rsState sin = rsState st" "rsPlatform sin = rsPlatform st" "rsReads sin = rsReads st + 2"
    "rsStore sin = snd (store_snapshot (envOrder env) (envClock env (Suc (rsReads st))) (rsStore st))"
    "rsState st' = rsState sout" "rsPlatform st' = rsPlatform sout" "rsStore st' = rsStore sout" "rsReads st' = Suc (rsReads sout)"
    "rsRegistry sin = record_windows ws (record_ages (sName svc) (reconcile_snapshot env st) (reconcile_now env st)
       (the (all_required (sPolicies svc))) {} (record_current_scale (sName svc) current (rsRegistry st)))"
    "rsRegistry st' = record_reconcile_latency (sName svc)
       (time_sub (envClock env (rsReads sout)) (reconcile_now env st)) (rsRegistry sout)"
proof -
  let ?now = "reconcile_now env st"
  obtain m store where ms: "store_snapshot (envOrder env) (envClock env (Suc (rsReads st))) (rsStore st) = (m, store)"
    by (metis surj_pair)
  have sn: "reconcile_snapshot env st = metric_snapshot m" by (simp add: reconcile_snapshot_def ms)
  have frame: "rsReads (record_metric f (s\<lparr>rsReads := k\<rparr>)) = k" "rsStore (s\<lparr>rsReads := k\<rparr>) = rsStore s" for f k and s :: "'a run_state"
    by simp_all
  from assms obtain names ds ws where n: "all_required (sPolicies svc) = Some names"
    and e: "evaluate_policies (envEngine env) (sPolicies svc) current (metric_snapshot m) ?now = Some (ds, ws)"
    by (auto simp: reconcile_service_def read_clock_def reconcile_now_def ms Let_def bind_eq_Some_conv)
  define sin where "sin = record_metric (record_windows ws) (record_metric
      (record_ages (sName svc) (metric_snapshot m) ?now names {})
      (record_metric (record_current_scale (sName svc) current) (st\<lparr>rsReads := Suc (rsReads st)\<rparr>)
        \<lparr>rsReads := Suc (Suc (rsReads st)), rsStore := store\<rparr>))"
  obtain sout where a: "apply_decisions rc env svc current ?now (reconcile_bounds env svc st) ds sin = (result, svc', sout)"
    and st': "st' = record_metric (record_reconcile_latency (sName svc)
        (time_sub (envClock env (rsReads sout)) ?now)) (sout\<lparr>rsReads := Suc (rsReads sout)\<rparr>)"
    using assms n e unfolding sin_def
    by (auto simp: reconcile_service_def read_clock_def reconcile_now_def ms Let_def reconcile_bounds_def
        split: prod.splits)
  show thesis
    by (rule that [of ds ws sin sout]) (use n e a sn ms in \<open>simp_all add: sin_def st'\<close>)
qed

lemma reconcile_effect:
  assumes "reconcile_service rc env svc current st = Some (result, svc', st')"
  shows "outcome_effect rc svc (reconcile_now env st) result svc' (rsState st) (rsPlatform st) (rsState st') (rsPlatform st')"
    "rsReads st < rsReads st'"
    "rsStore st' = snd (store_snapshot (envOrder env) (envClock env (Suc (rsReads st))) (rsStore st))"
proof -
  from assms have "outcome_effect rc svc (reconcile_now env st) result svc' (rsState st) (rsPlatform st) (rsState st') (rsPlatform st')
    \<and> rsReads st < rsReads st'
    \<and> rsStore st' = snd (store_snapshot (envOrder env) (envClock env (Suc (rsReads st))) (rsStore st))"
  proof (cases rule: reconcile_service_cases)
    case (1 ds ws sin sout)
    then show ?thesis using apply_decisions_effect [OF 1(3)] by simp
  qed
  then show "outcome_effect rc svc (reconcile_now env st) result svc' (rsState st) (rsPlatform st) (rsState st') (rsPlatform st')"
    "rsReads st < rsReads st'"
    "rsStore st' = snd (store_snapshot (envOrder env) (envClock env (Suc (rsReads st))) (rsStore st))" by blast+
qed

lemma reconcile_scaled:
  assumes "reconcile_service rc env svc current st = Some (result, svc', st')"
    and "result = Scaled d n \<or> result = DryRunScale d n"
  shows "\<exists>ds ws. evaluate_policies (envEngine env) (sPolicies svc) current (reconcile_snapshot env st) (reconcile_now env st) = Some (ds, ws)
      \<and> ds \<noteq> [] \<and> n = clamp (compute_desired current ds) (fst (reconcile_bounds env svc st)) (snd (reconcile_bounds env svc st))"
    "n \<noteq> current" "d = direction_of current n"
    "cooldown_passed env svc current d (rsState st (sName svc)) (rsReads st + 2)"
proof -
  from assms(1) have "(\<exists>ds ws. evaluate_policies (envEngine env) (sPolicies svc) current (reconcile_snapshot env st) (reconcile_now env st) = Some (ds, ws)
      \<and> ds \<noteq> [] \<and> n = clamp (compute_desired current ds) (fst (reconcile_bounds env svc st)) (snd (reconcile_bounds env svc st)))
    \<and> n \<noteq> current \<and> d = direction_of current n
    \<and> cooldown_passed env svc current d (rsState st (sName svc)) (rsReads st + 2)"
  proof (cases rule: reconcile_service_cases)
    case (1 ds ws sin sout)
    note s = apply_decisions_scaled [OF 1(3) assms(2)]
    with 1 show ?thesis by auto
  qed
  then show "\<exists>ds ws. evaluate_policies (envEngine env) (sPolicies svc) current (reconcile_snapshot env st) (reconcile_now env st) = Some (ds, ws)
      \<and> ds \<noteq> [] \<and> n = clamp (compute_desired current ds) (fst (reconcile_bounds env svc st)) (snd (reconcile_bounds env svc st))"
    "n \<noteq> current" "d = direction_of current n"
    "cooldown_passed env svc current d (rsState st (sName svc)) (rsReads st + 2)" by blast+
qed

section \<open>Nothing panics\<close>

definition env_ok :: "'p run_env \<Rightarrow> bool" where
  "env_ok env \<longleftrightarrow> range_order (envOrder env) \<and> (\<forall>i j. i \<le> j \<longrightarrow> envClock env i \<le> envClock env j) \<and> 0 < envClock env 0"

definition policies_ok :: "'p policy option list \<Rightarrow> bool" where
  "policies_ok ps \<longleftrightarrow> (\<forall>q \<in> set ps. \<exists>p. q = Some p \<and> policy_ok p)"

lemma service_policies_ok: "service_ok svc \<Longrightarrow> policies_ok (sPolicies svc)"
  by (auto simp: service_ok_def policies_ok_def)

lemma all_required_total: "policies_ok ps \<Longrightarrow> all_required ps \<noteq> None"
  by (induction ps rule: all_required.induct) (auto simp: policies_ok_def)

lemma evaluate_policies_total:
  "policies_ok ps \<Longrightarrow> snapshot_ok sn \<Longrightarrow> \<exists>ds ws. evaluate_policies eng ps current sn now = Some (ds, ws)"
proof (induction ps)
  case (Cons q ps)
  then obtain p where p: "q = Some p" "policy_ok p" by (auto simp: policies_ok_def)
  from pol.evalp_all_total [where ps = "[p]" and eng = eng and current = current and now = now] p Cons.prems
  obtain r where "policy_evaluate eng p current sn now = Some r" by auto
  moreover from Cons obtain ds ws where "evaluate_policies eng ps current sn now = Some (ds, ws)"
    by (auto simp: policies_ok_def)
  ultimately show ?case using p by (auto split: sum.splits)
qed simp

lemma reconcile_snapshot_ok:
  "env_ok env \<Longrightarrow> store_ok (rsStore st) \<Longrightarrow> snapshot_ok (reconcile_snapshot env st)"
proof -
  assume "env_ok env" "store_ok (rsStore st)"
  then have "series_map_ok (fst (store_snapshot (envOrder env) (envClock env (Suc (rsReads st))) (rsStore st)))"
    using store_snapshot_ok [of "rsStore st" "envOrder env" "envClock env (Suc (rsReads st))"]
    by (simp add: env_ok_def store_ok_def)
  then show ?thesis by (auto simp: snapshot_ok_def reconcile_snapshot_def)
qed

lemma reconcile_service_total:
  assumes "env_ok env" "store_ok (rsStore st)" "policies_ok (sPolicies svc)"
  shows "\<exists>result svc' st'. reconcile_service rc env svc current st = Some (result, svc', st')"
proof -
  obtain m store where ms: "store_snapshot (envOrder env) (envClock env (Suc (rsReads st))) (rsStore st) = (m, store)"
    by (metis surj_pair)
  obtain names where n: "all_required (sPolicies svc) = Some names"
    using all_required_total [OF assms(3)] by blast
  obtain ds ws where e:
    "evaluate_policies (envEngine env) (sPolicies svc) current (reconcile_snapshot env st) (reconcile_now env st) = Some (ds, ws)"
    using evaluate_policies_total [OF assms(3) reconcile_snapshot_ok [OF assms(1,2)]] by blast
  then show ?thesis
    using n by (simp add: reconcile_service_def read_clock_def ms Let_def reconcile_snapshot_def reconcile_now_def
        split: prod.splits)
qed

lemma reset_policies_ok:
  "policies_ok (sPolicies (reset_policies t svc)) \<longleftrightarrow> policies_ok (sPolicies svc)"
  by (auto simp: policies_ok_def reset_policies_def pol.rst_good)

section \<open>Rules for the loops\<close>

lemma reconcile_all_rule:
  assumes "reconcile_all rc env counts svcs st = Some (outs, svcs', st')" "I st" "\<And>svc. svc \<in> set svcs \<Longrightarrow> J svc"
    and "\<And>svc current st result svc' st'. I st \<Longrightarrow> J svc \<Longrightarrow>
      reconcile_service rc env svc current st = Some (result, svc', st') \<Longrightarrow> I st' \<and> J svc'"
  shows "I st' \<and> (\<forall>svc \<in> set svcs'. J svc)"
  using assms(1-3)
proof (induction svcs arbitrary: st outs svcs')
  case (Cons svc svcs)
  from Cons.prems(1) obtain result svc1 st1 outs1 svcs1 where
    r: "reconcile_service rc env svc (case counts (sIdentifier svc) of None \<Rightarrow> 0 | Some n \<Rightarrow> n) st = Some (result, svc1, st1)"
    and a: "reconcile_all rc env counts svcs st1 = Some (outs1, svcs1, st')" and s: "svcs' = svc1 # svcs1"
    by (auto simp: bind_eq_Some_conv)
  have "I st1 \<and> J svc1" using assms(4) [OF _ _ r] Cons.prems by simp
  with Cons.IH [OF a] Cons.prems s show ?case by auto
qed simp

lemma poll_frame:
  "rsState (poll_prometheus_metrics rc env svcs st) = rsState st"
  "rsPlatform (poll_prometheus_metrics rc env svcs st) = rsPlatform st"
  "rsReads st \<le> rsReads (poll_prometheus_metrics rc env svcs st)"
proof -
  let ?P = "\<lambda>s. rsState s = rsState st \<and> rsPlatform s = rsPlatform st \<and> rsReads st \<le> rsReads s"
  have "?P (poll_prometheus_metrics rc env svcs st)"
    unfolding poll_prometheus_metrics_def
    by (auto simp: read_clock_def poll_binding_def store_add_clocked_def
        intro!: foldl_invariant [where P = ?P] split: option.splits sum.splits)
  then show "rsState (poll_prometheus_metrics rc env svcs st) = rsState st"
    "rsPlatform (poll_prometheus_metrics rc env svcs st) = rsPlatform st"
    "rsReads st \<le> rsReads (poll_prometheus_metrics rc env svcs st)" by blast+
qed

lemma poll_store_ok:
  assumes "env_ok env" "store_ok (rsStore st)"
  shows "store_ok (rsStore (poll_prometheus_metrics rc env svcs st))"
  unfolding poll_prometheus_metrics_def using assms
  by (auto simp: read_clock_def poll_binding_def store_add_clocked_def env_ok_def
      intro!: foldl_invariant [where P = "\<lambda>s. store_ok (rsStore s)"] store_add_ok split: option.splits sum.splits)

lemma ticks_rule:
  assumes "ticks rc env n (svcs, st) = Some (svcs', st')" "I st" "\<And>svc. svc \<in> set svcs \<Longrightarrow> J svc"
    and poll: "\<And>svcs st. I st \<Longrightarrow> I (poll_prometheus_metrics rc env svcs st)"
    and counts: "\<And>ss st r a. I st \<Longrightarrow> GetCurrentCounts (rcAdapter rc) ss (rsPlatform st) = (r, a) \<Longrightarrow> I (st\<lparr>rsPlatform := a\<rparr>)"
    and step: "\<And>svc current st result svc' st'. I st \<Longrightarrow> J svc \<Longrightarrow>
      reconcile_service rc env svc current st = Some (result, svc', st') \<Longrightarrow> I st' \<and> J svc'"
  shows "I st' \<and> (\<forall>svc \<in> set svcs'. J svc)"
  using assms(1-3)
proof (induction n arbitrary: svcs st)
  case (Suc n)
  from Suc.prems(1) obtain outs svcs1 st1 where t: "tick rc env (svcs, st) = Some (outs, svcs1, st1)"
    and r: "ticks rc env n (svcs1, st1) = Some (svcs', st')"
    by (auto simp: bind_eq_Some_conv)
  let ?p = "poll_prometheus_metrics rc env svcs st"
  obtain c a where g: "GetCurrentCounts (rcAdapter rc) (map sIdentifier svcs) (rsPlatform ?p) = (c, a)"
    by (metis surj_pair)
  have p: "I (?p\<lparr>rsPlatform := a\<rparr>)" using counts [OF poll [OF Suc.prems(2)] g] .
  have "I st1 \<and> (\<forall>svc \<in> set svcs1. J svc)"
  proof (cases c)
    case (Inl e)
    with t g p Suc.prems(3) show ?thesis by (auto simp: tick_def Let_def)
  next
    case (Inr m)
    with t g have "reconcile_all rc env m svcs (?p\<lparr>rsPlatform := a\<rparr>) = Some (outs, svcs1, st1)"
      by (simp add: tick_def Let_def)
    then show ?thesis by (rule reconcile_all_rule) (use p Suc.prems(3) step in blast)+
  qed
  with Suc.IH [OF r] show ?case by blast
qed simp

lemma reconcile_keeps_ok:
  assumes "env_ok env" "store_ok (rsStore st)" "policies_ok (sPolicies svc)"
    and "reconcile_service rc env svc current st = Some (result, svc', st')"
  shows "store_ok (rsStore st')" "policies_ok (sPolicies svc')"
proof -
  note e = reconcile_effect [OF assms(4)]
  show "store_ok (rsStore st')"
    unfolding e(3) using store_snapshot_ok assms(1,2) by (simp add: env_ok_def)
  show "policies_ok (sPolicies svc')"
    using e(1) assms(3) by (cases result) (auto simp: outcome_effect_def reset_policies_ok)
qed

lemma reconcile_all_total:
  assumes "env_ok env" "store_ok (rsStore st)" "\<forall>svc \<in> set svcs. policies_ok (sPolicies svc)"
  shows "\<exists>outs svcs' st'. reconcile_all rc env counts svcs st = Some (outs, svcs', st')
    \<and> store_ok (rsStore st') \<and> (\<forall>svc \<in> set svcs'. policies_ok (sPolicies svc))"
  using assms(2,3)
proof (induction svcs arbitrary: st)
  case (Cons svc svcs)
  let ?n = "case counts (sIdentifier svc) of None \<Rightarrow> 0 | Some n \<Rightarrow> n"
  obtain result svc1 st1 where r: "reconcile_service rc env svc ?n st = Some (result, svc1, st1)"
    using reconcile_service_total [OF assms(1) Cons.prems(1)] Cons.prems(2) by (metis list.set_intros(1))
  have k: "store_ok (rsStore st1)" "policies_ok (sPolicies svc1)"
    using reconcile_keeps_ok [OF assms(1) Cons.prems(1) _ r] Cons.prems(2) by simp_all
  from Cons.IH [OF k(1)] Cons.prems(2) obtain outs svcs1 st2 where
    "reconcile_all rc env counts svcs st1 = Some (outs, svcs1, st2)" "store_ok (rsStore st2)"
    "\<forall>svc \<in> set svcs1. policies_ok (sPolicies svc)" by auto
  with r k show ?case by simp
qed simp

lemma tick_total:
  assumes "env_ok env" "store_ok (rsStore st)" "\<forall>svc \<in> set svcs. policies_ok (sPolicies svc)"
  shows "\<exists>outs svcs' st'. tick rc env (svcs, st) = Some (outs, svcs', st')
    \<and> store_ok (rsStore st') \<and> (\<forall>svc \<in> set svcs'. policies_ok (sPolicies svc))"
proof -
  let ?p = "poll_prometheus_metrics rc env svcs st"
  obtain c a where g: "GetCurrentCounts (rcAdapter rc) (map sIdentifier svcs) (rsPlatform ?p) = (c, a)"
    by (metis surj_pair)
  have p: "store_ok (rsStore (?p\<lparr>rsPlatform := a\<rparr>))" using poll_store_ok [OF assms(1,2)] by simp
  show ?thesis
  proof (cases c)
    case (Inl e)
    with g p assms(3) show ?thesis by (simp add: tick_def Let_def)
  next
    case (Inr m)
    with g reconcile_all_total [OF assms(1) p assms(3)] show ?thesis by (simp add: tick_def Let_def)
  qed
qed

lemma ticks_total:
  assumes "env_ok env" "store_ok (rsStore st)" "\<forall>svc \<in> set svcs. policies_ok (sPolicies svc)"
  shows "\<exists>svcs' st'. ticks rc env n (svcs, st) = Some (svcs', st') \<and> store_ok (rsStore st')"
  using assms(2,3)
proof (induction n arbitrary: svcs st)
  case (Suc n)
  from tick_total [OF assms(1) Suc.prems] obtain outs svcs1 st1 where
    "tick rc env (svcs, st) = Some (outs, svcs1, st1)" "store_ok (rsStore st1)"
    "\<forall>svc \<in> set svcs1. policies_ok (sPolicies svc)" by metis
  with Suc.IH show ?case by simp
qed simp

section \<open>An adapter that keeps its scale calls\<close>

definition logged_adapter :: "'a adapter_api \<Rightarrow> ('a \<times> (string \<times> int) list) adapter_api" where
  "logged_adapter api =
     \<lparr>GetCurrentCount = (\<lambda>s (a, calls). case GetCurrentCount api s a of (r, a1) \<Rightarrow> (r, (a1, calls))),
      GetCurrentCounts = (\<lambda>ss (a, calls). case GetCurrentCounts api ss a of (r, a1) \<Rightarrow> (r, (a1, calls))),
      Scale = (\<lambda>s n (a, calls). case Scale api s n a of (r, a1) \<Rightarrow> (r, (a1, calls @ [(s, n)]))),
      HealthCheck = (\<lambda>(a, calls). case HealthCheck api a of (r, a1) \<Rightarrow> (r, (a1, calls)))\<rparr>"

lemma logged_scale: "snd (snd (Scale (logged_adapter api) s n a)) = snd a @ [(s, n)]"
  by (cases a) (simp add: logged_adapter_def split: prod.splits)

lemma logged_counts: "snd (snd (GetCurrentCounts (logged_adapter api) ss a)) = snd a"
  by (cases a) (simp add: logged_adapter_def split: prod.splits)

lemma logged_counts_result: "fst (GetCurrentCounts (logged_adapter api) ss a) = fst (GetCurrentCounts api ss (fst a))"
  by (cases a) (simp add: logged_adapter_def split: prod.splits)

section \<open>Properties\<close>

text \<open>C12. Scaling up wins, scaling down is unanimous: the desired count is the greatest decision if that
  exceeds the current count; otherwise the current count if one decision is to hold it;
  otherwise the least aggressive downscale, never below zero.\<close>

theorem desired_count_spec:
  assumes "ds \<noteq> []"
  shows "compute_desired current ds =
    (let D = desiredCount ` set ds in
     if \<exists>n \<in> D. current < n then Max D else if current \<in> D then current else max 0 (Max D))"
proof -
  let ?D = "desiredCount ` set ds"
  have D: "finite ?D" "?D \<noteq> {}" using assms by simp_all
  have up: "(\<exists>n \<in> ?D. current < n) \<longleftrightarrow> current < Max ?D" using D by (simp add: Max_gr_iff)
  have hold: "current \<in> ?D \<longleftrightarrow> Max ?D = current" if "\<not> current < Max ?D"
    using D that Max_in [OF D] Max_ge [OF D(1)] by (metis antisym not_le)
  show ?thesis unfolding compute_desired_eq [OF assms] Let_def up using hold by simp
qed

theorem desired_count_spec_witness:
  "compute_desired 5 [\<lparr>desiredCount = 3, decisionReason = ReasonText ''a''\<rparr>, \<lparr>desiredCount = 4, decisionReason = ReasonText ''b''\<rparr>] = 4"
  by (subst desired_count_spec) (simp_all add: Let_def)

text \<open>The single service of the witnesses: one window over metric \<open>q\<close>, bounds 1 to 5.\<close>

definition example_service :: "rat service" where
  "example_service = \<lparr>sName = ''s'', sIdentifier = ''svc'', sMinCount = 1, sMaxCount = 5,
     sCooldown = \<lparr>cdUpscale = minute, cdDownscale = 10 * minute\<rparr>, sSchedule = None,
     sMetrics = [\<lparr>mbName = ''q'', mbSource = ''otlp'', mbQuery = '''', mbMetric = ''q'', mbAttributes = []\<rparr>],
     sPolicies = [Some (PTarget example_target)]\<rparr>"

definition example_env :: "rat run_env" where
  "example_env = \<lparr>envClock = (\<lambda>i. unix_epoch + int i), envOrder = (\<lambda>m. m), envEngine = example_engine,
     envZones = (\<lambda>_. None)\<rparr>"

definition example_rc :: "bool \<Rightarrow> memory_state reconciler" where
  "example_rc dry = \<lparr>rcAdapter = memory_adapter, rcPromSources = [], rcInterval = 10 * second, rcDryRun = dry\<rparr>"

definition example_run :: "int \<Rightarrow> memory_state run_state" where
  "example_run v = initial_state
     ((new_metric_store [])\<lparr>series := [(MetricKey ''s'' ''q'', [\<lparr>sampleValue = Fin (of_int v), observedAt = unix_epoch\<rparr>])]\<rparr>)
     [''svc'' \<mapsto> 2]"

lemma example_env_ok: "env_ok example_env"
  by (simp add: env_ok_def example_env_def unix_epoch_def)

lemma example_run_ok: "store_ok (rsStore (example_run v))"
  using new_metric_store_ok [of "[]"]
  by (simp add: example_run_def initial_state_def store_ok_def series_map_ok_def series_ok_def sample_ok_def
      f64_finite_def time_is_zero_def unix_epoch_def)

lemma example_service_ok: "policies_ok (sPolicies example_service)"
  by (simp add: example_service_def policies_ok_def)

lemma example_snapshot:
  "store_snapshot (envOrder example_env) t (rsStore (example_run v)) = (series (rsStore (example_run v)), rsStore (example_run v))"
proof -
  have b: "store_bounded (rsStore (example_run v))"
    by (simp add: example_run_def initial_state_def store_bounded_def new_metric_store_def total_samples_def)
  have p: "prune_series c (series (rsStore (example_run v))) = series (rsStore (example_run v))" for c
    by (simp add: example_run_def initial_state_def prune_series_def prune_samples_def)
  show ?thesis by (simp add: store_snapshot_def p Let_def enforce_limits_idle [OF b])
qed

lemma example_latest:
  "Latest (metric_snapshot (series (rsStore (example_run v)))) (MetricKey ''s'' ''q'') =
     Some \<lparr>sampleValue = Fin (of_int v), observedAt = unix_epoch\<rparr>"
  by (simp add: example_run_def initial_state_def metric_snapshot_def snapshot_latest_def snapshot_samples_def
      series_of_def latest_sample_def)

lemma example_reconcile:
  "\<exists>st'. reconcile_service (example_rc dry) example_env example_service 2 (example_run 25) =
     Some ((if dry then DryRunScale ScaleUp 3 else Scaled ScaleUp 3), example_service, st')
   \<and> rsPlatform st' = (if dry then [''svc'' \<mapsto> 2] else [''svc'' \<mapsto> 3])"
proof -
  have c: "\<lceil>5 / 2 :: rat\<rceil> = 3" by (rule ceiling_unique) auto
  have ev: "evaluate_policies (envEngine example_env) (sPolicies example_service) 2
      (metric_snapshot (series (rsStore (example_run 25)))) now =
    Some ([\<lparr>desiredCount = 3, decisionReason = ReasonExpr ''ceil(q / 10)'' 3\<rparr>], [])" for now
    using example_latest [of 25]
    by (simp add: example_service_def example_env_def target_evaluate_def example_target_def example_engine_def
        Let_def c in_int64_def)
  have snap: "reconcile_snapshot example_env (example_run 25) = metric_snapshot (series (rsStore (example_run 25)))"
    by (simp add: reconcile_snapshot_def example_snapshot)
  have bounds: "reconcile_bounds example_env example_service (example_run 25) = (1, 5)"
    by (simp add: reconcile_bounds_def active_bounds_def example_service_def)
  have st: "rsState (example_run 25) = Map.empty" "rsPlatform (example_run 25) = [''svc'' \<mapsto> 2]"
    by (simp_all add: example_run_def initial_state_def)
  obtain result svc' st' where r: "reconcile_service (example_rc dry) example_env example_service 2 (example_run 25) =
      Some (result, svc', st')"
    using reconcile_service_total [OF example_env_ok example_run_ok example_service_ok] by blast
  then have "result = (if dry then DryRunScale ScaleUp 3 else Scaled ScaleUp 3) \<and> svc' = example_service
      \<and> rsPlatform st' = (if dry then [''svc'' \<mapsto> 2] else [''svc'' \<mapsto> 3])"
  proof (cases rule: reconcile_service_cases)
    case (1 ds ws sin sout)
    then have ds: "ds = [\<lparr>desiredCount = 3, decisionReason = ReasonExpr ''ceil(q / 10)'' 3\<rparr>]"
      using ev [of "reconcile_now example_env (example_run 25)"] by (simp add: snap)
    have d: "clamp (compute_desired 2 ds) 1 5 = 3"
      by (simp add: ds compute_desired_def clamp_def)
    from 1(3) [unfolded bounds] show ?thesis
    proof (cases rule: apply_decisions_cases)
      case (scale f st2)
      then show ?thesis
        using 1 st by (auto simp: d direction_of_def execute_scale_def example_rc_def record_scale_event_eq reset_policies_def
            example_service_def target_reset_def memory_adapter_def memory_scale_def split: if_splits)
    qed (use d ds 1 st in \<open>auto simp: cooldown_passed_def\<close>)
  qed
  with r show ?thesis by blast
qed



text \<open>C13. A reconciliation touches only what its outcome says: a successful scale is one call of the
  adapter for that service followed by the record of the event and the reset of its policies; a
  dry run records and resets without a call; a failed scale changes neither the scaling state
  nor the policies, so that the next tick tries again; every other outcome changes nothing of
  these; and other services' scaling states are never touched.\<close>

theorem reconcile_effects:
  assumes "reconcile_service rc env svc current st = Some (result, svc', st')"
  shows "outcome_effect rc svc (envClock env (rsReads st)) result svc' (rsState st) (rsPlatform st) (rsState st') (rsPlatform st')
    \<and> (\<forall>name. name \<noteq> sName svc \<longrightarrow> rsState st' name = rsState st name)"
  using reconcile_effect(1) [OF assms]
  by (cases result) (auto simp: outcome_effect_def reconcile_now_def)

theorem reconcile_effects_witness:
  "\<exists>st'. reconcile_service (example_rc True) example_env example_service 2 (example_run 25) =
     Some (DryRunScale ScaleUp 3, example_service, st') \<and> rsPlatform st' = [''svc'' \<mapsto> 2] \<and> rsState st' ''other'' = None"
proof -
  obtain st' where r: "reconcile_service (example_rc True) example_env example_service 2 (example_run 25) =
     Some (DryRunScale ScaleUp 3, example_service, st')"
    using example_reconcile [of True] by auto
  from reconcile_effects [OF r] show ?thesis
    using r by (auto simp: outcome_effect_def example_run_def initial_state_def example_service_def)
qed

text \<open>C16. A dry run never scales: however long the loop runs and whatever the metrics, the policies and
  the adapter answer, no scale call reaches the adapter.\<close>

theorem dry_run_never_scales:
  assumes "rcAdapter rc = logged_adapter api" "rcDryRun rc" "snd (rsPlatform st) = []"
    and "run_loop rc env n (svcs, st) = Some (svcs', st')"
  shows "snd (rsPlatform st') = []"
proof -
  let ?I = "\<lambda>st :: ('a \<times> (string \<times> int) list) run_state. snd (rsPlatform st) = []"
  have t: "ticks rc env (Suc n) (svcs, st) = Some (svcs', st')"
    using assms(4) by (simp add: run_loop_def split: if_splits)
  have "?I st' \<and> (\<forall>svc \<in> set svcs'. True)"
  proof (rule ticks_rule [OF t])
    fix ss and st :: "('a \<times> (string \<times> int) list) run_state" and r a
    assume "?I st" "GetCurrentCounts (rcAdapter rc) ss (rsPlatform st) = (r, a)"
    then show "?I (st\<lparr>rsPlatform := a\<rparr>)"
      using logged_counts [of api ss "rsPlatform st"] assms(1) by simp
  next
    fix svc current result svc1 and st st1 :: "('a \<times> (string \<times> int) list) run_state"
    assume i: "?I st" and "reconcile_service rc env svc current st = Some (result, svc1, st1)"
    from reconcile_effect(1) [OF this(2)] i assms(2) show "?I st1 \<and> True"
      by (cases result) (auto simp: outcome_effect_def)
  qed (use assms(3) poll_frame(2) [of rc env] in auto)
  then show ?thesis by blast
qed

theorem dry_run_never_scales_witness:
  "\<exists>svcs' st'. run_loop \<lparr>rcAdapter = logged_adapter memory_adapter, rcPromSources = [], rcInterval = 10 * second, rcDryRun = True\<rparr>
     example_env 3 ([example_service], initial_state (rsStore (example_run 25)) ([''svc'' \<mapsto> 2], [])) = Some (svcs', st')
     \<and> snd (rsPlatform st') = []"
proof -
  let ?rc = "\<lparr>rcAdapter = logged_adapter memory_adapter, rcPromSources = [], rcInterval = 10 * second, rcDryRun = True\<rparr>"
  let ?st = "initial_state (rsStore (example_run 25)) ([''svc'' \<mapsto> 2], [])"
  obtain svcs' st' where r: "ticks ?rc example_env 4 ([example_service], ?st) = Some (svcs', st')"
    using ticks_total [OF example_env_ok, of ?st "[example_service]" ?rc 4] example_run_ok example_service_ok
    by (auto simp: initial_state_def)
  then have l: "run_loop ?rc example_env 3 ([example_service], ?st) = Some (svcs', st')"
    by (simp add: run_loop_def second_def eval_nat_numeral)
  have "snd (rsPlatform st') = []"
    by (rule dry_run_never_scales [OF _ _ _ l]) (simp_all add: initial_state_def)
  with l show ?thesis by blast
qed

text \<open>Without counts there is no scaling: if the batch read of the configured services keeps failing, no scale
  call is made and neither the scaling state nor any policy changes.\<close>

theorem no_counts_no_scaling:
  assumes "rcAdapter rc = logged_adapter api" "\<forall>a. \<exists>e. fst (GetCurrentCounts api (map sIdentifier svcs) a) = Inl e"
    and "ticks rc env n (svcs, st) = Some (svcs', st')"
  shows "snd (rsPlatform st') = snd (rsPlatform st) \<and> rsState st' = rsState st \<and> svcs' = svcs"
  using assms(3)
proof (induction n arbitrary: st)
  case (Suc n)
  let ?p = "poll_prometheus_metrics rc env svcs st"
  obtain c a where g: "GetCurrentCounts (rcAdapter rc) (map sIdentifier svcs) (rsPlatform ?p) = (c, a)"
    by (metis surj_pair)
  obtain e where c: "c = Inl e"
    using g assms(1) assms(2) [rule_format, of "fst (rsPlatform ?p)"]
      logged_counts_result [of api "map sIdentifier svcs" "rsPlatform ?p"] by auto
  have t: "tick rc env (svcs, st) = Some ([], svcs, ?p\<lparr>rsPlatform := a\<rparr>)"
    using g c by (simp add: tick_def Let_def)
  have "snd a = snd (rsPlatform st)"
    using g logged_counts [of api "map sIdentifier svcs" "rsPlatform ?p"] assms(1) poll_frame(2) [of rc env svcs st] by simp
  with Suc.IH [of "?p\<lparr>rsPlatform := a\<rparr>"] Suc.prems t poll_frame(1) [of rc env svcs st] show ?case by simp
qed simp

definition failing_adapter :: "memory_state adapter_api" where
  "failing_adapter = memory_adapter\<lparr>GetCurrentCounts := \<lambda>ss a. (Inl (DescribeServicesFailed ''throttled''), a)\<rparr>"

theorem no_counts_no_scaling_witness:
  "\<exists>svcs' st'. ticks \<lparr>rcAdapter = logged_adapter failing_adapter, rcPromSources = [], rcInterval = 10 * second, rcDryRun = False\<rparr>
     example_env 2 ([example_service], initial_state (rsStore (example_run 25)) (Map.empty, [])) = Some (svcs', st')
     \<and> snd (rsPlatform st') = [] \<and> svcs' = [example_service]"
proof -
  let ?rc = "\<lparr>rcAdapter = logged_adapter failing_adapter, rcPromSources = [], rcInterval = 10 * second, rcDryRun = False\<rparr>"
  let ?st = "initial_state (rsStore (example_run 25)) (Map.empty, [])"
  obtain svcs' st' where r: "ticks ?rc example_env 2 ([example_service], ?st) = Some (svcs', st')"
    using ticks_total [OF example_env_ok, of ?st "[example_service]" ?rc 2] example_run_ok example_service_ok
    by (auto simp: initial_state_def)
  with no_counts_no_scaling [OF _ _ r, of failing_adapter] show ?thesis
    by (simp add: failing_adapter_def initial_state_def)
qed

text \<open>The loop never panics: with a positive interval, well-formed services and a sound store, the
  loop runs for any number of ticks, whatever the platform, the metrics and the Prometheus
  servers answer, and the store stays sound.\<close>

theorem run_never_panics:
  assumes "env_ok env" "0 < rcInterval rc" "store_ok (rsStore st)" "list_all service_ok svcs"
  shows "\<exists>svcs' st'. run_loop rc env n (svcs, st) = Some (svcs', st') \<and> store_ok (rsStore st')"
proof -
  have "\<forall>svc \<in> set svcs. policies_ok (sPolicies svc)"
    using assms(4) service_policies_ok by (auto simp: list_all_iff)
  from ticks_total [OF assms(1,3) this, where n = "Suc n" and rc = rc] assms(2) show ?thesis
    by (simp add: run_loop_def)
qed


theorem run_never_panics_witness:
  "\<exists>svcs' st'. run_loop (example_rc False) example_env 2 ([example_service], example_run 25) = Some (svcs', st')"
proof -
  have "list_all service_ok [example_service]"
    by (simp add: example_service_def service_ok_def target_required_metrics_def example_target_def)
  from run_never_panics [OF example_env_ok _ example_run_ok [of 25] this, where rc = "example_rc False" and n = 2] show ?thesis
    by (auto simp: example_rc_def second_def)
qed

end
