(* ===== verification/Otlp_Receiver.thy ===== *)
theory Otlp_Receiver
  imports Metric_Store
begin

text \<open>
  The OTLP receiver (\<^verbatim>\<open>internal/metrics/otlp.go\<close>): the registered bindings, and the way a
  request's data points reach the store. Decoded protobuf messages are records and datatypes;
  a nil pointer is \<open>None\<close>. Transport (listening, gRPC, gzip, protobuf decoding) is not part of
  the repository's logic: the handler takes what these libraries return as arguments. An
  \<^verbatim>\<open>Add\<close> of a well-formed sample reads the store's clock, so an operation takes the sequence of
  readings and a count of those used. \<open>fmt\<close> is \<^verbatim>\<open>strconv.FormatFloat(v, 'f', -1, 64)\<close>.
\<close>

section \<open>Messages\<close>

datatype any_value =
    StringValue string | IntValue int | BoolValue bool | DoubleValue f64 | OtherValue

record key_value =
  kvKey :: string
  kvValue :: "any_value option"

datatype number_value = AsDouble f64 | AsInt int | NoNumber

record data_point =
  dpAttributes :: "key_value list"
  TimeUnixNano :: "64 word"
  dpValue :: number_value

datatype metric_data = Gauge "data_point option list option" | Sum "data_point option list option" | OtherData

record otlp_metric =
  omName :: string
  omData :: metric_data

text \<open>Resource metrics, scope metrics, metrics.\<close>

type_synonym export_request = "otlp_metric list list list"

section \<open>The receiver\<close>

record otlp_binding =
  obKey :: metric_key
  obAttributes :: "(string \<times> string) list"

record otlp_receiver =
  grpcAddr :: string
  httpAddr :: string
  bindings :: "string \<rightharpoonup> otlp_binding list"

definition new_otlp_receiver :: "int \<Rightarrow> int \<Rightarrow> otlp_receiver" where
  "new_otlp_receiver grpcPort httpPort =
     \<lparr>grpcAddr = '':'' @ show_int grpcPort, httpAddr = '':'' @ show_int httpPort, bindings = Map.empty\<rparr>"

definition bindings_of :: "otlp_receiver \<Rightarrow> string \<Rightarrow> otlp_binding list" where
  "bindings_of r name = (case bindings r name of None \<Rightarrow> [] | Some bs \<Rightarrow> bs)"

text \<open>\<^verbatim>\<open>maps.Equal\<close>.\<close>

definition maps_equal :: "(string \<times> string) list \<Rightarrow> (string \<times> string) list \<Rightarrow> bool" where
  "maps_equal a b \<longleftrightarrow> length a = length b \<and> list_all (\<lambda>(k, v). map_of b k = Some v) a"

definition register_binding ::
  "string \<Rightarrow> metric_key \<Rightarrow> (string \<times> string) list \<Rightarrow> otlp_receiver \<Rightarrow> otlp_receiver" where
  "register_binding rawName key attributes r =
     (if rawName = '''' \<or> keyName key = '''' then r
      else if list_ex (\<lambda>existing. obKey existing = key \<and> maps_equal (obAttributes existing) attributes) (bindings_of r rawName)
      then r
      else r\<lparr>bindings := (bindings r)(rawName \<mapsto> bindings_of r rawName @ [\<lparr>obKey = key, obAttributes = attributes\<rparr>])\<rparr>)"

definition extract_value :: "data_point option \<Rightarrow> f64 option" where
  "extract_value point =
     (case point of
        None \<Rightarrow> None
      | Some p \<Rightarrow>
          (case dpValue p of AsDouble v \<Rightarrow> Some v | AsInt n \<Rightarrow> Some (int_to_f64 n) | NoNumber \<Rightarrow> None))"

definition attribute_string :: "(f64 \<Rightarrow> string) \<Rightarrow> any_value option \<Rightarrow> string option" where
  "attribute_string fmt v =
     (case v of
        None \<Rightarrow> None
      | Some (StringValue s) \<Rightarrow> Some s
      | Some (IntValue n) \<Rightarrow> Some (show_int n)
      | Some (BoolValue b) \<Rightarrow> Some (if b then ''true'' else ''false'')
      | Some (DoubleValue d) \<Rightarrow> Some (fmt d)
      | Some OtherValue \<Rightarrow> None)"

text \<open>The loop over the selector: the first attribute with the key decides.\<close>

definition matches_attributes :: "(f64 \<Rightarrow> string) \<Rightarrow> key_value list \<Rightarrow> (string \<times> string) list \<Rightarrow> bool" where
  "matches_attributes fmt attributes selector =
     list_all (\<lambda>(key, want).
       (case find (\<lambda>a. kvKey a = key) attributes of
          None \<Rightarrow> False
        | Some a \<Rightarrow> (case attribute_string fmt (kvValue a) of None \<Rightarrow> False | Some v \<Rightarrow> v = want))) selector"

definition data_points :: "metric_data \<Rightarrow> data_point option list" where
  "data_points d =
     (case d of
        Gauge (Some ps) \<Rightarrow> ps
      | Sum (Some ps) \<Rightarrow> ps
      | _ \<Rightarrow> [])"

text \<open>The event time of a point: the receive time when it has none, no time when it does not fit 63 bits.\<close>

definition observed_at :: "64 word \<Rightarrow> time \<Rightarrow> time option" where
  "observed_at nanos receivedAt =
     (if nanos \<noteq> 0 then (if nanos > 9223372036854775807 then None else Some (time_unix (sint nanos)))
      else Some receivedAt)"

type_synonym clocked_store = "nat \<times> metric_store"

definition add_step ::
  "(series_map \<Rightarrow> series_map) \<Rightarrow> (nat \<Rightarrow> time) \<Rightarrow> metric_key \<Rightarrow> sample \<Rightarrow> clocked_store \<Rightarrow> clocked_store" where
  "add_step ro clock key x st =
     (if sample_malformed key x then st
      else (Suc (fst st), snd (store_add ro (clock (fst st)) key x (snd st))))"

definition process_point ::
  "(series_map \<Rightarrow> series_map) \<Rightarrow> (nat \<Rightarrow> time) \<Rightarrow> (f64 \<Rightarrow> string) \<Rightarrow> otlp_binding list \<Rightarrow> time
   \<Rightarrow> clocked_store \<Rightarrow> data_point option \<Rightarrow> clocked_store" where
  "process_point ro clock fmt bs receivedAt st point =
     (case (extract_value point, point) of
        (Some v, Some p) \<Rightarrow>
          (case observed_at (TimeUnixNano p) receivedAt of
             None \<Rightarrow> st
           | Some t \<Rightarrow>
               foldl (\<lambda>st b. if matches_attributes fmt (dpAttributes p) (obAttributes b)
                              then add_step ro clock (obKey b) \<lparr>sampleValue = v, observedAt = t\<rparr> st else st) st bs)
      | _ \<Rightarrow> st)"

definition process_metric ::
  "(series_map \<Rightarrow> series_map) \<Rightarrow> (nat \<Rightarrow> time) \<Rightarrow> (f64 \<Rightarrow> string) \<Rightarrow> otlp_receiver \<Rightarrow> time
   \<Rightarrow> clocked_store \<Rightarrow> otlp_metric \<Rightarrow> clocked_store" where
  "process_metric ro clock fmt r receivedAt st m =
     (let bs = bindings_of r (omName m) in
      if bs = [] then st else foldl (process_point ro clock fmt bs receivedAt) st (data_points (omData m)))"

definition process_request ::
  "(series_map \<Rightarrow> series_map) \<Rightarrow> (nat \<Rightarrow> time) \<Rightarrow> (f64 \<Rightarrow> string) \<Rightarrow> otlp_receiver \<Rightarrow> time
   \<Rightarrow> export_request \<Rightarrow> clocked_store \<Rightarrow> clocked_store" where
  "process_request ro clock fmt r receivedAt req st =
     foldl (\<lambda>st rm. foldl (\<lambda>st sm. foldl (process_metric ro clock fmt r receivedAt) st sm) st rm) st req"

section \<open>HTTP\<close>

record http_request =
  hrMethod :: string
  ContentEncoding :: string
  hrBody :: "string option"

text \<open>\<open>gunzip\<close> gives \<open>None\<close> for a bad gzip header and \<open>Some None\<close> for a failure while reading.\<close>

definition handle_http_metrics ::
  "(series_map \<Rightarrow> series_map) \<Rightarrow> (nat \<Rightarrow> time) \<Rightarrow> (f64 \<Rightarrow> string) \<Rightarrow> (string option \<Rightarrow> string option option)
   \<Rightarrow> (string \<Rightarrow> export_request option) \<Rightarrow> otlp_receiver \<Rightarrow> time \<Rightarrow> http_request \<Rightarrow> clocked_store
   \<Rightarrow> nat \<times> clocked_store" where
  "handle_http_metrics ro clock fmt gunzip unmarshal r now req st =
     (if hrMethod req \<noteq> ''POST'' then (405, st)
      else if ContentEncoding req \<notin> {'''', ''identity'', ''gzip''} then (415, st)
      else (case (if ContentEncoding req = ''gzip'' then gunzip (hrBody req) else Some (hrBody req)) of
              None \<Rightarrow> (400, st)
            | Some None \<Rightarrow> (400, st)
            | Some (Some payload) \<Rightarrow>
                (case unmarshal payload of
                   None \<Rightarrow> (400, st)
                 | Some m \<Rightarrow> (200, process_request ro clock fmt r now m st))))"

text \<open>The receiver's HTTP server has one route.\<close>

definition serve_otlp_http ::
  "(series_map \<Rightarrow> series_map) \<Rightarrow> (nat \<Rightarrow> time) \<Rightarrow> (f64 \<Rightarrow> string) \<Rightarrow> (string option \<Rightarrow> string option option)
   \<Rightarrow> (string \<Rightarrow> export_request option) \<Rightarrow> otlp_receiver \<Rightarrow> time \<Rightarrow> string \<Rightarrow> http_request \<Rightarrow> clocked_store
   \<Rightarrow> nat \<times> clocked_store" where
  "serve_otlp_http ro clock fmt gunzip unmarshal r now path req st =
     (if path = ''/v1/metrics'' then handle_http_metrics ro clock fmt gunzip unmarshal r now req st else (404, st))"

text \<open>The gRPC entry point: it always succeeds.\<close>

definition export_metrics ::
  "(series_map \<Rightarrow> series_map) \<Rightarrow> (nat \<Rightarrow> time) \<Rightarrow> (f64 \<Rightarrow> string) \<Rightarrow> otlp_receiver \<Rightarrow> time
   \<Rightarrow> export_request \<Rightarrow> clocked_store \<Rightarrow> clocked_store" where
  "export_metrics ro clock fmt r now req st = process_request ro clock fmt r now req st"

section \<open>Bindings\<close>

lemma maps_equal_iff:
  assumes "distinct (map fst a)" "distinct (map fst b)"
  shows "maps_equal a b \<longleftrightarrow> set a = set b"
proof
  have d: "distinct a" "distinct b" using assms by (simp_all add: distinct_map)
  assume "maps_equal a b"
  then have len: "length a = length b" and sub: "set a \<subseteq> set b"
    by (auto simp: maps_equal_def list_all_iff dest: map_of_SomeD)
  have "card (set a) = card (set b)"
    using len d by (simp add: distinct_card)
  then show "set a = set b" using sub by (simp add: card_subset_eq)
next
  assume e: "set a = set b"
  have d: "distinct a" "distinct b" using assms by (simp_all add: distinct_map)
  from e have "length a = length b" using d by (metis distinct_card)
  moreover have "\<forall>(k, v) \<in> set a. map_of b k = Some v" using e assms(2) by auto
  ultimately show "maps_equal a b" by (simp add: maps_equal_def list_all_iff)
qed

text \<open>No name has two bindings with the same key and the same selector.\<close>

definition receiver_ok :: "otlp_receiver \<Rightarrow> bool" where
  "receiver_ok r \<longleftrightarrow> (\<forall>name bs. bindings r name = Some bs \<longrightarrow>
     name \<noteq> '''' \<and> bs \<noteq> [] \<and> distinct (map (\<lambda>b. (obKey b, set (obAttributes b))) bs)
     \<and> list_all (\<lambda>b. keyName (obKey b) \<noteq> '''' \<and> distinct (map fst (obAttributes b))) bs)"

lemma bindings_of_ok:
  assumes "receiver_ok r"
  shows "distinct (map (\<lambda>b. (obKey b, set (obAttributes b))) (bindings_of r name))"
    "list_all (\<lambda>b. keyName (obKey b) \<noteq> '''' \<and> distinct (map fst (obAttributes b))) (bindings_of r name)"
  using assms by (auto simp: receiver_ok_def bindings_of_def split: option.splits)

lemma register_binding_ok:
  assumes "receiver_ok r" "distinct (map fst attributes)"
  shows "receiver_ok (register_binding rawName key attributes r)"
proof (cases "rawName = '''' \<or> keyName key = '''' \<or>
    list_ex (\<lambda>e. obKey e = key \<and> maps_equal (obAttributes e) attributes) (bindings_of r rawName)")
  case True
  then show ?thesis using assms(1) by (auto simp: register_binding_def)
next
  case False
  note b = bindings_of_ok [OF assms(1), of rawName]
  have "(key, set attributes) \<notin> (\<lambda>b. (obKey b, set (obAttributes b))) ` set (bindings_of r rawName)"
    using False b(2) assms(2) by (auto simp: list_ex_iff list_all_iff maps_equal_iff)
  then show ?thesis
    using False assms b by (auto simp: register_binding_def receiver_ok_def)
qed

section \<open>What a request may add\<close>

text \<open>The samples a request routes to key \<open>k\<close>: a number point of a metric, with a usable time, that
  a binding of the metric's name to \<open>k\<close> selects.\<close>

definition routed ::
  "(f64 \<Rightarrow> string) \<Rightarrow> otlp_receiver \<Rightarrow> time \<Rightarrow> export_request \<Rightarrow> metric_key \<Rightarrow> sample \<Rightarrow> bool" where
  "routed fmt r receivedAt req k x \<longleftrightarrow>
     (\<exists>rm \<in> set req. \<exists>sm \<in> set rm. \<exists>m \<in> set sm. \<exists>p. Some p \<in> set (data_points (omData m))
        \<and> extract_value (Some p) = Some (sampleValue x)
        \<and> observed_at (TimeUnixNano p) receivedAt = Some (observedAt x)
        \<and> (\<exists>b \<in> set (bindings_of r (omName m)). obKey b = k \<and> matches_attributes fmt (dpAttributes p) (obAttributes b)))"

lemma routedI:
  "rm \<in> set req \<Longrightarrow> sm \<in> set rm \<Longrightarrow> m \<in> set sm \<Longrightarrow> Some p \<in> set (data_points (omData m)) \<Longrightarrow>
   extract_value (Some p) = Some (sampleValue x) \<Longrightarrow> observed_at (TimeUnixNano p) receivedAt = Some (observedAt x) \<Longrightarrow>
   b \<in> set (bindings_of r (omName m)) \<Longrightarrow> obKey b = k \<Longrightarrow>
   matches_attributes fmt (dpAttributes p) (obAttributes b) \<Longrightarrow> routed fmt r receivedAt req k x"
  unfolding routed_def by blast

text \<open>The invariant of the loops: the store is sound and holds only old samples and routed ones.\<close>

definition store_within :: "(metric_key \<Rightarrow> sample \<Rightarrow> bool) \<Rightarrow> metric_store \<Rightarrow> clocked_store \<Rightarrow> bool" where
  "store_within new s0 st \<longleftrightarrow> store_ok (snd st)
     \<and> (store_bounded s0 \<longrightarrow> store_bounded (snd st))
     \<and> (\<forall>k x. (k, x) \<in># store_entries (series (snd st)) \<longrightarrow> (k, x) \<in># store_entries (series s0) \<or> new k x)"

lemma add_step_within:
  assumes "range_order ro" "store_within new s0 st" "new k x"
  shows "store_within new s0 (add_step ro clock k x st)"
proof (cases "sample_malformed k x")
  case True
  then show ?thesis using assms(2) by (simp add: add_step_def)
next
  case False
  from assms(2) have st: "store_ok (snd st)" "store_bounded s0 \<longrightarrow> store_bounded (snd st)"
    "\<And>k x. (k, x) \<in># store_entries (series (snd st)) \<Longrightarrow> (k, x) \<in># store_entries (series s0) \<or> new k x"
    by (auto simp: store_within_def)
  have "(k', y) \<in># store_entries (series s0) \<or> new k' y"
    if "(k', y) \<in># store_entries (series (snd (store_add ro (clock (fst st)) k x (snd st))))" for k' y
    using store_add_entries [OF st(1) assms(1) that] st(3) assms(3) by blast
  then show ?thesis
    using st(1,2) assms(1) False by (auto simp: store_within_def add_step_def intro: store_add_ok store_add_bounded)
qed

lemma process_request_within:
  assumes "range_order ro" "store_ok s0"
  shows "store_within (routed fmt r receivedAt req) s0 (process_request ro clock fmt r receivedAt req (n, s0))"
proof -
  let ?new = "routed fmt r receivedAt req"
  have point: "store_within ?new s0 (process_point ro clock fmt (bindings_of r (omName m)) receivedAt st q)"
    if st: "store_within ?new s0 st" and q: "q \<in> set (data_points (omData m))"
      and m: "m \<in> set sm" "sm \<in> set rm" "rm \<in> set req" for st q m sm rm
  proof (cases "extract_value q")
    case None
    then show ?thesis using st by (simp add: process_point_def)
  next
    case (Some v)
    then obtain p where p: "q = Some p" by (cases q) (auto simp: extract_value_def)
    show ?thesis
    proof (cases "observed_at (TimeUnixNano p) receivedAt")
      case None
      then show ?thesis using st Some p by (simp add: process_point_def)
    next
      case (Some t)
      have "?new (obKey b) \<lparr>sampleValue = v, observedAt = t\<rparr>"
        if "b \<in> set (bindings_of r (omName m))" "matches_attributes fmt (dpAttributes p) (obAttributes b)" for b
        using that m q [unfolded p] Some \<open>extract_value q = Some v\<close> [unfolded p]
        by (intro routedI [of rm req sm m p _ _ b]) simp_all
      then show ?thesis
        unfolding process_point_def using st Some p \<open>extract_value q = Some v\<close>
        by (auto intro!: foldl_invariant [where P = "store_within ?new s0"] add_step_within [OF assms(1)])
    qed
  qed
  have base: "store_within ?new s0 (n, s0)" using assms(2) by (simp add: store_within_def)
  show ?thesis
    unfolding process_request_def
  proof (rule foldl_invariant [where P = "store_within ?new s0"], rule base,
      rule foldl_invariant [where P = "store_within ?new s0"], assumption,
      rule foldl_invariant [where P = "store_within ?new s0"], assumption)
    fix st rm st1 sm st2 m
    assume "rm \<in> set req" "sm \<in> set rm" "m \<in> set sm" "store_within ?new s0 st2"
    then show "store_within ?new s0 (process_metric ro clock fmt r receivedAt st2 m)"
      unfolding process_metric_def Let_def using point by (auto intro: foldl_invariant [where P = "store_within ?new s0"])
  qed
qed

section \<open>Properties\<close>

text \<open>C40. An OTLP request changes only what is bound: for every request, receiver and sequence of clock
  readings the store keeps its invariant and its hard limits, and every sample it holds
  afterwards was there before or comes from a number point with a usable time whose metric
  name has a binding to that key and whose attributes the binding's selector accepts.\<close>

theorem otlp_request_provenance:
  assumes "range_order ro" "store_ok s" "store_bounded s"
  shows "store_ok (snd (process_request ro clock fmt r receivedAt req (n, s)))
    \<and> store_bounded (snd (process_request ro clock fmt r receivedAt req (n, s)))
    \<and> (\<forall>k x. (k, x) \<in># store_entries (series (snd (process_request ro clock fmt r receivedAt req (n, s)))) \<longrightarrow>
         (k, x) \<in># store_entries (series s) \<or> routed fmt r receivedAt req k x)"
  using process_request_within [OF assms(1,2), of fmt r receivedAt req clock n] assms(3)
  by (auto simp: store_within_def)

text \<open>One queue metric with a selected and an unselected point.\<close>

definition example_receiver :: otlp_receiver where
  "example_receiver = register_binding ''queue'' (MetricKey ''s'' ''q'') [(''env'', ''prod'')] (new_otlp_receiver 4317 4318)"

definition example_request :: export_request where
  "example_request = [[[\<lparr>omName = ''queue'', omData = Gauge (Some
     [Some \<lparr>dpAttributes = [\<lparr>kvKey = ''env'', kvValue = Some (StringValue ''prod'')\<rparr>], TimeUnixNano = 0, dpValue = AsInt 7\<rparr>,
      Some \<lparr>dpAttributes = [\<lparr>kvKey = ''env'', kvValue = Some (StringValue ''dev'')\<rparr>], TimeUnixNano = 0, dpValue = AsInt 9\<rparr>])\<rparr>]]]"

theorem otlp_request_provenance_witness:
  "store_ok (snd (process_request (\<lambda>m. m) (\<lambda>_. 2000) (\<lambda>_. []) example_receiver 1000 example_request (0, new_metric_store [])))"
proof -
  have "store_bounded (new_metric_store [])"
    by (simp add: new_metric_store_def store_bounded_def total_samples_def)
  with otlp_request_provenance [OF range_order_id new_metric_store_ok [of "[]"]] show ?thesis by simp
qed

definition point_attributes :: "(f64 \<Rightarrow> string) \<Rightarrow> key_value list \<Rightarrow> (string \<rightharpoonup> string)" where
  "point_attributes fmt attributes k =
     Option.bind (find (\<lambda>a. kvKey a = k) attributes) (\<lambda>a. attribute_string fmt (kvValue a))"

text \<open>A selector accepts exactly the points that carry all its pairs: it is a sub-map of the
  point's attributes read as text, where the first attribute with a key counts and an
  attribute that is absent or not a scalar has no text.\<close>

theorem selector_is_submap:
  assumes "distinct (map fst selector)"
  shows "matches_attributes fmt attributes selector \<longleftrightarrow> map_of selector \<subseteq>\<^sub>m point_attributes fmt attributes"
proof -
  have "(case find (\<lambda>a. kvKey a = k) attributes of None \<Rightarrow> False
      | Some a \<Rightarrow> (case attribute_string fmt (kvValue a) of None \<Rightarrow> False | Some v \<Rightarrow> v = want))
      \<longleftrightarrow> point_attributes fmt attributes k = Some want" for k want
    by (simp add: point_attributes_def split: option.splits bind_splits)
  then have "matches_attributes fmt attributes selector \<longleftrightarrow>
      (\<forall>(k, want) \<in> set selector. point_attributes fmt attributes k = Some want)"
    by (auto simp: matches_attributes_def list_all_iff)
  also have "\<dots> \<longleftrightarrow> map_of selector \<subseteq>\<^sub>m point_attributes fmt attributes"
  proof
    assume l: "\<forall>(k, want) \<in> set selector. point_attributes fmt attributes k = Some want"
    show "map_of selector \<subseteq>\<^sub>m point_attributes fmt attributes"
      unfolding map_le_def
    proof
      fix k assume "k \<in> dom (map_of selector)"
      then obtain w where w: "map_of selector k = Some w" by auto
      then have "(k, w) \<in> set selector" by (rule map_of_SomeD)
      with l w show "map_of selector k = point_attributes fmt attributes k" by auto
    qed
  next
    assume r: "map_of selector \<subseteq>\<^sub>m point_attributes fmt attributes"
    show "\<forall>(k, want) \<in> set selector. point_attributes fmt attributes k = Some want"
    proof clarify
      fix k w assume "(k, w) \<in> set selector"
      then have "map_of selector k = Some w" using assms by simp
      with r show "point_attributes fmt attributes k = Some w" by (metis domI map_le_def)
    qed
  qed
  finally show ?thesis .
qed

theorem selector_is_submap_witness:
  "matches_attributes (\<lambda>_. []) [\<lparr>kvKey = ''spot'', kvValue = Some (BoolValue True)\<rparr>, \<lparr>kvKey = ''spot'', kvValue = None\<rparr>] [(''spot'', ''true'')]"
  by (subst selector_is_submap)
     (simp_all add: point_attributes_def attribute_string_def map_le_def)

lemma register_binding_routes:
  assumes "receiver_ok r" "distinct (map fst attributes)"
  shows "(\<lambda>b. (obKey b, set (obAttributes b))) ` set (bindings_of (register_binding raw key attributes r) name) =
    (\<lambda>b. (obKey b, set (obAttributes b))) ` set (bindings_of r name)
      \<union> (if raw = name \<and> name \<noteq> '''' \<and> keyName key \<noteq> '''' then {(key, set attributes)} else {})"
proof -
  let ?dup = "list_ex (\<lambda>e. obKey e = key \<and> maps_equal (obAttributes e) attributes) (bindings_of r raw)"
  have dup: "?dup \<longleftrightarrow> (key, set attributes) \<in> (\<lambda>b. (obKey b, set (obAttributes b))) ` set (bindings_of r raw)"
    using bindings_of_ok(2) [OF assms(1), of raw] assms(2)
    by (auto simp: list_ex_iff list_all_iff maps_equal_iff image_iff)
  show ?thesis
  proof (cases "raw = '''' \<or> keyName key = '''' \<or> ?dup")
    case True
    then have "register_binding raw key attributes r = r" by (auto simp: register_binding_def)
    then show ?thesis using True dup by auto
  next
    case False
    then have "bindings_of (register_binding raw key attributes r) name =
        (if name = raw then bindings_of r raw @ [\<lparr>obKey = key, obAttributes = attributes\<rparr>] else bindings_of r name)"
      by (auto simp: register_binding_def bindings_of_def)
    then show ?thesis using False by simp
  qed
qed

definition register_all ::
  "(string \<times> metric_key \<times> (string \<times> string) list) list \<Rightarrow> otlp_receiver \<Rightarrow> otlp_receiver" where
  "register_all regs r = foldl (\<lambda>r (raw, key, attributes). register_binding raw key attributes r) r regs"

definition registered_under ::
  "(string \<times> metric_key \<times> (string \<times> string) list) list \<Rightarrow> string \<Rightarrow> (metric_key \<times> (string \<times> string) set) set" where
  "registered_under regs name = set (map (\<lambda>(_, key, attributes). (key, set attributes))
     (filter (\<lambda>(raw, key, _). raw = name \<and> raw \<noteq> '''' \<and> keyName key \<noteq> '''') regs))"

lemma register_all_routes:
  assumes "\<forall>(raw, key, attributes) \<in> set regs. distinct (map fst attributes)"
  shows "receiver_ok (register_all regs (new_otlp_receiver g h)) \<and>
    (\<lambda>b. (obKey b, set (obAttributes b))) ` set (bindings_of (register_all regs (new_otlp_receiver g h)) name) = registered_under regs name"
  using assms
proof (induction regs rule: rev_induct)
  case Nil
  then show ?case by (simp add: register_all_def receiver_ok_def new_otlp_receiver_def bindings_of_def registered_under_def)
next
  case (snoc reg regs)
  obtain raw key attributes where reg: "reg = (raw, key, attributes)" by (cases reg) auto
  let ?r = "register_all regs (new_otlp_receiver g h)"
  from snoc have ok: "receiver_ok ?r"
    and IH: "(\<lambda>b. (obKey b, set (obAttributes b))) ` set (bindings_of ?r name) = registered_under regs name"
    and d: "distinct (map fst attributes)" by (auto simp: reg)
  have step: "register_all (regs @ [reg]) (new_otlp_receiver g h) = register_binding raw key attributes ?r"
    by (simp add: reg register_all_def)
  have "registered_under (regs @ [reg]) name =
      registered_under regs name \<union> (if raw = name \<and> name \<noteq> '''' \<and> keyName key \<noteq> '''' then {(key, set attributes)} else {})"
    by (auto simp: reg registered_under_def)
  then show ?case
    unfolding step by (simp only: register_binding_routes [OF ok d] IH register_binding_ok [OF ok d] simp_thms)
qed

text \<open>Registration is a set of routes: after any sequence of registrations a raw name routes to
  exactly the keys and selectors registered under it with non-empty names, each once, however
  often and with whatever order of attributes they were registered.\<close>

theorem registered_routes_exact:
  assumes "\<forall>(raw, key, attributes) \<in> set regs. distinct (map fst attributes)"
  shows "(\<lambda>b. (obKey b, set (obAttributes b))) ` set (bindings_of (register_all regs (new_otlp_receiver g h)) name)
    = set (map (\<lambda>(_, key, attributes). (key, set attributes))
        (filter (\<lambda>(raw, key, _). raw = name \<and> raw \<noteq> '''' \<and> keyName key \<noteq> '''') regs))
   \<and> distinct (map (\<lambda>b. (obKey b, set (obAttributes b))) (bindings_of (register_all regs (new_otlp_receiver g h)) name))"
  using register_all_routes [OF assms, of g h name] bindings_of_ok(1) by (simp add: registered_under_def)

theorem registered_routes_exact_witness:
  "length (bindings_of (register_all
      [(''m'', MetricKey ''s'' ''q'', [(''a'', ''1''), (''b'', ''2'')]), (''m'', MetricKey ''s'' ''q'', [(''b'', ''2''), (''a'', ''1'')])]
      (new_otlp_receiver 1 2)) ''m'') = 1"
proof -
  let ?f = "\<lambda>b. (obKey b, set (obAttributes b))"
  let ?regs = "[(''m'', MetricKey ''s'' ''q'', [(''a'', ''1''), (''b'', ''2'')]), (''m'', MetricKey ''s'' ''q'', [(''b'', ''2''), (''a'', ''1'')])]"
  let ?bs = "bindings_of (register_all ?regs (new_otlp_receiver 1 2)) ''m''"
  have "?f ` set ?bs = set (map (\<lambda>(_, key, attributes). (key, set attributes))
        (filter (\<lambda>(raw, key, _). raw = ''m'' \<and> raw \<noteq> '''' \<and> keyName key \<noteq> '''') ?regs)) \<and> distinct (map ?f ?bs)"
    by (rule registered_routes_exact) simp
  moreover have "{(''b'', ''2''), (''a'', ''1'')} = {(''a'', ''1''), (''b'', ''2'')}" by (rule insert_commute)
  ultimately have "card (set (map ?f ?bs)) = 1" "distinct (map ?f ?bs)" by simp_all
  then show ?thesis using distinct_card [of "map ?f ?bs"] by simp
qed

end
