(* ===== verification/System.thy ===== *)
theory System
  imports Reconciler Otlp_Receiver
begin

text \<open>
  The running system as a step relation. The reconciler's loop, the OTLP receiver and the
  platform run concurrently, and the mutex of the store makes its operations atomic. A step is
  one of: the reconciliation of a service with some reading of its count, a poll of the
  Prometheus sources, a whole OTLP request, the addition of one sample, or a change of the
  platform by someone else. The reconciliation of a service reads the store once, in its
  snapshot; a sample that is added between its evaluation time and its snapshot is a \<open>sample\<close>
  step just before it, which may use any later reading of the clock. A run records every change
  of scale. The lemmas show
  by rule induction how the recorded events relate to the scaling state and to the windows.
\<close>

record scale_record =
  srName :: string
  srDirection :: scale_direction
  srCurrent :: int
  srDesired :: int
  srNow :: time
  srChecked :: time
  srCooldown :: cooldown_config

text \<open>\<open>srNow\<close> is the evaluation time and \<open>srChecked\<close> the third reading, the one of the cooldown check.\<close>

definition event_of :: "'p run_env \<Rightarrow> 'p service \<Rightarrow> int \<Rightarrow> 'a run_state \<Rightarrow> outcome \<Rightarrow> scale_record list" where
  "event_of env svc current st result =
     (let ev = (\<lambda>d n. [\<lparr>srName = sName svc, srDirection = d, srCurrent = current, srDesired = n,
            srNow = envClock env (rsReads st), srChecked = envClock env (rsReads st + 2), srCooldown = sCooldown svc\<rparr>])
      in case result of Scaled d n \<Rightarrow> ev d n | DryRunScale d n \<Rightarrow> ev d n | _ \<Rightarrow> [])"

type_synonym ('p, 'a) system = "'p service list \<times> 'a run_state"

inductive sys_step ::
  "'a reconciler \<Rightarrow> 'p run_env \<Rightarrow> ('p, 'a) system \<Rightarrow> scale_record list \<Rightarrow> ('p, 'a) system \<Rightarrow> bool"
  for rc :: "'a reconciler" and env :: "'p run_env" where
  reconcile: "i < length svcs \<Longrightarrow>
     reconcile_service rc env (svcs ! i) current st = Some (result, svc', st') \<Longrightarrow>
     sys_step rc env (svcs, st) (event_of env (svcs ! i) current st result) (svcs[i := svc'], st')"
| poll: "sys_step rc env (svcs, st) [] (svcs, poll_prometheus_metrics rc env svcs st)"
| otlp: "process_request (envOrder env) (envClock env) fmt recv receivedAt req (rsReads st, rsStore st) = (k, store) \<Longrightarrow>
     sys_step rc env (svcs, st) [] (svcs, st\<lparr>rsReads := k, rsStore := store\<rparr>)"
| sample: "sys_step rc env (svcs, st) [] (svcs, st\<lparr>rsStore := snd (store_add (envOrder env) t key x (rsStore st))\<rparr>)"
| platform: "sys_step rc env (svcs, st) [] (svcs, st\<lparr>rsPlatform := a\<rparr>)"

inductive sys_run ::
  "'a reconciler \<Rightarrow> 'p run_env \<Rightarrow> ('p, 'a) system \<Rightarrow> scale_record list \<Rightarrow> ('p, 'a) system \<Rightarrow> bool"
  for rc :: "'a reconciler" and env :: "'p run_env" and s0 where
  start: "sys_run rc env s0 [] s0"
| step: "sys_run rc env s0 es s \<Longrightarrow> sys_step rc env s e s' \<Longrightarrow> sys_run rc env s0 (es @ e) s'"

inductive_cases sys_stepE: "sys_step rc env (svcs, st) e (svcs', st')"

text \<open>A tick of the loop is a sequence of such steps.\<close>

lemma sys_run_trans:
  assumes "sys_run rc env s0 es s" "sys_run rc env s es' s'"
  shows "sys_run rc env s0 (es @ es') s'"
  using assms(2) assms(1)
proof (induction rule: sys_run.induct)
  case (step es1 s1 e s2)
  then have "sys_run rc env s0 ((es @ es1) @ e) s2" by (blast intro: sys_run.step)
  then show ?case by simp
qed simp

lemma sys_run_step: "sys_step rc env s e s' \<Longrightarrow> sys_run rc env s e s'"
  using sys_run.step [OF sys_run.start] by fastforce

lemma reconcile_all_steps:
  assumes "reconcile_all rc env counts svcs st = Some (outs, svcs', st')"
  shows "\<exists>es. sys_run rc env (pre @ svcs, st) es (pre @ svcs', st')"
  using assms
proof (induction svcs arbitrary: pre st outs svcs')
  case Nil
  then show ?case by (auto intro: sys_run.start)
next
  case (Cons svc svcs)
  let ?n = "case counts (sIdentifier svc) of None \<Rightarrow> 0 | Some n \<Rightarrow> n"
  from Cons.prems obtain result svc1 st1 outs1 svcs1 where
    r: "reconcile_service rc env svc ?n st = Some (result, svc1, st1)"
    and a: "reconcile_all rc env counts svcs st1 = Some (outs1, svcs1, st')" and s: "svcs' = svc1 # svcs1"
    by (auto simp: bind_eq_Some_conv)
  have "sys_step rc env (pre @ svc # svcs, st) (event_of env ((pre @ svc # svcs) ! length pre) ?n st result)
      ((pre @ svc # svcs)[length pre := svc1], st1)"
    by (rule sys_step.reconcile) (use r in simp_all)
  then have "\<exists>es. sys_run rc env (pre @ svc # svcs, st) es ((pre @ [svc1]) @ svcs, st1)"
    by (auto intro: sys_run_step)
  moreover from Cons.IH [OF a, of "pre @ [svc1]"] s
  have "\<exists>es. sys_run rc env ((pre @ [svc1]) @ svcs, st1) es (pre @ svcs', st')" by simp
  ultimately show ?case using sys_run_trans by blast
qed

lemma tick_steps:
  assumes "tick rc env (svcs, st) = Some (outs, svcs', st')"
  shows "\<exists>es. sys_run rc env (svcs, st) es (svcs', st')"
proof -
  let ?p = "poll_prometheus_metrics rc env svcs st"
  obtain c a where g: "GetCurrentCounts (rcAdapter rc) (map sIdentifier svcs) (rsPlatform ?p) = (c, a)"
    by (metis surj_pair)
  have p: "sys_run rc env (svcs, st) ([] @ []) (svcs, ?p\<lparr>rsPlatform := a\<rparr>)"
    by (rule sys_run.step [OF sys_run_step [OF sys_step.poll] sys_step.platform])
  show ?thesis
  proof (cases c)
    case (Inl e)
    with g assms have "(svcs', st') = (svcs, ?p\<lparr>rsPlatform := a\<rparr>)" by (auto simp: tick_def Let_def)
    with p show ?thesis by metis
  next
    case (Inr m)
    with g assms have "reconcile_all rc env m svcs (?p\<lparr>rsPlatform := a\<rparr>) = Some (outs, svcs', st')"
      by (simp add: tick_def Let_def)
    from reconcile_all_steps [OF this, of "[]"] p show ?thesis using sys_run_trans by fastforce
  qed
qed

lemma ticks_steps:
  "ticks rc env n (svcs, st) = Some (svcs', st') \<Longrightarrow> \<exists>es. sys_run rc env (svcs, st) es (svcs', st')"
proof (induction n arbitrary: svcs st)
  case 0
  then show ?case by (auto intro: sys_run.start)
next
  case (Suc n)
  from Suc.prems obtain outs svcs1 st1 where "tick rc env (svcs, st) = Some (outs, svcs1, st1)"
    and "ticks rc env n (svcs1, st1) = Some (svcs', st')"
    by (auto simp: bind_eq_Some_conv)
  with Suc.IH tick_steps [of rc env svcs st] sys_run_trans show ?case by meson
qed

section \<open>Readings of the clock\<close>

lemma foldl_reads_mono:
  "(\<And>s x. f s \<le> (f (g s x) :: nat)) \<Longrightarrow> f s \<le> f (foldl g s xs)"
  by (induction xs arbitrary: s) (auto intro: order_trans)

lemma process_request_reads: "fst st \<le> fst (process_request ro clock fmt r t req st)"
proof -
  have point: "fst s \<le> fst (process_point ro clock fmt bs t s p)" for s bs p
    unfolding process_point_def
    by (auto simp: add_step_def intro!: foldl_reads_mono [where f = fst] split: option.splits)
  have metric: "fst s \<le> fst (process_metric ro clock fmt r t s m)" for s m
    unfolding process_metric_def Let_def using point by (auto intro!: foldl_reads_mono [where f = fst])
  show ?thesis
    unfolding process_request_def using metric by (intro foldl_reads_mono [where f = fst])
qed

lemma sys_step_reads: "sys_step rc env s e s' \<Longrightarrow> rsReads (snd s) \<le> rsReads (snd s')"
proof (induction rule: sys_step.induct)
  case (reconcile i svcs current st result svc' st')
  then show ?case using reconcile_effect(2) by fastforce
next
  case (otlp fmt recv receivedAt req st k store svcs)
  then show ?case using process_request_reads [of "(rsReads st, rsStore st)"] by (metis fst_conv run_state.select_convs(1) run_state.surjective run_state.update_convs(1,3) snd_conv)
qed (simp_all add: poll_frame)

section \<open>Events and the scaling state\<close>

definition event_cooldown :: "scale_record \<Rightarrow> duration" where
  "event_cooldown r = (if srDirection r = ScaleUp then cdUpscale (srCooldown r) else cdDownscale (srCooldown r))"

definition last_time :: "scale_direction \<Rightarrow> service_state \<Rightarrow> time" where
  "last_time d s = (if d = ScaleUp then lastUpscaleTime s else lastDownscaleTime s)"

lemma recorded_last_time:
  "d \<noteq> ScaleNone \<Longrightarrow> last_time d' (recorded_state d now s) =
     (if d' = d \<or> d = ScaleDown \<and> d' \<noteq> ScaleUp then now else (case s of None \<Rightarrow> 0 | Some x \<Rightarrow> last_time d' x))"
  by (cases d; cases d') (auto simp: last_time_def recorded_state_def Let_def split: option.splits)

text \<open>The scaling state remembers the recorded events, and its times are past readings.\<close>

definition trace_inv :: "'p run_env \<Rightarrow> scale_record list \<Rightarrow> 'a run_state \<Rightarrow> bool" where
  "trace_inv env es st \<longleftrightarrow>
     (\<forall>r \<in> set es. srDirection r \<noteq> ScaleNone \<and> 0 < srNow r \<and> srNow r \<le> envClock env (rsReads st)
        \<and> (\<exists>s. rsState st (srName r) = Some s \<and> srNow r \<le> last_time (srDirection r) s \<and> 0 < last_time (srDirection r) s))
     \<and> (\<forall>name s d. rsState st name = Some s \<longrightarrow> last_time d s \<le> envClock env (rsReads st))"

definition separated :: "scale_record \<Rightarrow> scale_record \<Rightarrow> bool" where
  "separated a b \<longleftrightarrow> srName a = srName b \<and> srDirection a = srDirection b
     \<and> \<not> (srDirection b = ScaleUp \<and> srCurrent b = 0) \<and> 0 \<le> event_cooldown b \<and> event_cooldown b \<le> maxInt64
     \<longrightarrow> srNow a + event_cooldown b \<le> srChecked b"

lemma env_clock_mono: "env_ok env \<Longrightarrow> i \<le> j \<Longrightarrow> envClock env i \<le> envClock env j"
  by (simp add: env_ok_def)

lemma env_clock_pos: "env_ok env \<Longrightarrow> 0 < envClock env i"
proof -
  assume ok: "env_ok env"
  then have "0 < envClock env 0" by (simp add: env_ok_def)
  also have "\<dots> \<le> envClock env i" using ok by (rule env_clock_mono) simp
  finally show ?thesis .
qed

lemma trace_inv_later:
  assumes "env_ok env" "trace_inv env es st" "rsState st' = rsState st" "rsReads st \<le> rsReads st'"
  shows "trace_inv env es st'"
proof -
  note le = order_trans [OF _ env_clock_mono [OF assms(1,4)]]
  show ?thesis using assms(2,3) unfolding trace_inv_def by (auto intro: le)
qed

lemma event_of_cases:
  obtains "event_of env svc current st result = []" "\<forall>d n. result \<noteq> Scaled d n \<and> result \<noteq> DryRunScale d n"
  | d n where "result = Scaled d n \<or> result = DryRunScale d n"
      "event_of env svc current st result =
        [\<lparr>srName = sName svc, srDirection = d, srCurrent = current, srDesired = n, srNow = envClock env (rsReads st),
          srChecked = envClock env (rsReads st + 2), srCooldown = sCooldown svc\<rparr>]"
  by (cases result) (simp_all add: event_of_def)

lemma outcome_effect_quiet:
  "outcome_effect rc svc now result svc' s a s' a' \<Longrightarrow> \<forall>d n. result \<noteq> Scaled d n \<and> result \<noteq> DryRunScale d n \<Longrightarrow>
   svc' = svc \<and> s' = s"
  by (cases result) (auto simp: outcome_effect_def)

lemma outcome_effect_change:
  "outcome_effect rc svc now result svc' s a s' a' \<Longrightarrow> result = Scaled d n \<or> result = DryRunScale d n \<Longrightarrow>
   svc' = reset_policies now svc \<and> s' = s(sName svc \<mapsto> recorded_state d now (s (sName svc)))"
  by (auto simp: outcome_effect_def)

text \<open>A recorded change of scale extends the trace, and the cooldown check separates it from the earlier ones.\<close>

lemma trace_inv_record:
  assumes env: "env_ok env" and inv: "trace_inv env es st" and reads: "rsReads st \<le> rsReads st'" and d: "srDirection e \<noteq> ScaleNone"
    and now: "srNow e = envClock env (rsReads st)"
    and st': "rsState st' = (rsState st)(srName e \<mapsto> recorded_state (srDirection e) (srNow e) (rsState st (srName e)))"
  shows "trace_inv env (es @ [e]) st'"
proof -
  have pos: "0 < srNow e" and le: "srNow e \<le> envClock env (rsReads st')"
    using env_clock_pos [OF env] env_clock_mono [OF env reads] by (simp_all add: now)
  have old: "last_time d' x \<le> srNow e" if "rsState st name = Some x" for name x d'
    using inv that by (auto simp: trace_inv_def now)
  have past: "srNow r \<le> srNow e \<and> srDirection r \<noteq> ScaleNone \<and> 0 < srNow r
      \<and> (\<exists>s. rsState st (srName r) = Some s \<and> srNow r \<le> last_time (srDirection r) s \<and> 0 < last_time (srDirection r) s)"
    if "r \<in> set es" for r
    using inv that by (auto simp: trace_inv_def now)
  have "\<exists>s. rsState st' (srName r) = Some s \<and> srNow r \<le> last_time (srDirection r) s \<and> 0 < last_time (srDirection r) s"
    if "r \<in> set (es @ [e])" for r
    using that past [of r] pos by (auto simp: st' recorded_last_time [OF d] d)
  moreover have "last_time d' x \<le> envClock env (rsReads st')" if "rsState st' name = Some x" for name x d'
  proof (cases "name = srName e")
    case True
    with that have "x = recorded_state (srDirection e) (srNow e) (rsState st (srName e))" by (simp add: st')
    then have "last_time d' x \<le> srNow e"
      using old [of "srName e" _ d'] pos by (auto simp: recorded_last_time [OF d] split: option.splits)
    with le show ?thesis by simp
  next
    case False
    with that old [of name x d'] le show ?thesis by (simp add: st')
  qed
  ultimately show ?thesis using past pos le d unfolding trace_inv_def by fastforce
qed

lemma trace_inv_separated:
  assumes inv: "trace_inv env es st" and a: "a \<in> set es" and d: "srDirection b \<noteq> ScaleNone"
    and b: "srName b = sName svc" "srCooldown b = sCooldown svc" "srChecked b = envClock env (rsReads st + 2)"
    and passed: "cooldown_passed env svc (srCurrent b) (srDirection b) (rsState st (sName svc)) (rsReads st + 2)"
  shows "separated a b"
  unfolding separated_def
proof clarify
  assume ab: "srName a = srName b" "srDirection a = srDirection b" "\<not> (srDirection b = ScaleUp \<and> srCurrent b = 0)"
    "0 \<le> event_cooldown b" "event_cooldown b \<le> maxInt64"
  from inv a ab b obtain x where x: "rsState st (sName svc) = Some x" "srNow a \<le> last_time (srDirection b) x"
    "0 < last_time (srDirection b) x"
    by (auto simp: trace_inv_def)
  have "event_cooldown b \<le> time_sub (srChecked b) (last_time (srDirection b) x)"
    using passed x d ab b by (cases "srDirection b") (auto simp: cooldown_passed_def last_time_def event_cooldown_def)
  then have "event_cooldown b \<le> srChecked b - last_time (srDirection b) x"
    using ab by (simp add: time_sub_le_iff)
  with x(2) show "srNow a + event_cooldown b \<le> srChecked b" by simp
qed

lemma reconcile_trace:
  assumes env: "env_ok env" and inv: "trace_inv env es st"
    and r: "reconcile_service rc env svc current st = Some (result, svc', st')"
  shows "trace_inv env (es @ event_of env svc current st result) st'
    \<and> (\<forall>a \<in> set es. \<forall>b \<in> set (event_of env svc current st result). separated a b)"
proof -
  note eff = reconcile_effect [OF r, unfolded reconcile_now_def]
  have reads: "rsReads st \<le> rsReads st'" using eff(2) by simp
  show ?thesis
  proof (cases rule: event_of_cases [of env svc current st result])
    case 1
    have "rsState st' = rsState st" using outcome_effect_quiet [OF eff(1) 1(2)] by blast
    then show ?thesis using 1(1) trace_inv_later [OF env inv _ reads] by simp
  next
    case (2 d n)
    note c = outcome_effect_change [OF eff(1) 2(1)]
    note s = reconcile_scaled [OF r 2(1)]
    have d: "d \<noteq> ScaleNone" using s(3) by (simp add: direction_of_def)
    have "trace_inv env (es @ event_of env svc current st result) st'"
      unfolding 2(2) by (rule trace_inv_record [OF env inv reads]) (simp_all add: c d)
    moreover have "separated a b" if "a \<in> set es" "b \<in> set (event_of env svc current st result)" for a b
      by (rule trace_inv_separated [OF inv that(1), of _ svc]) (use that(2) 2(2) d s(4) in simp_all)
    ultimately show ?thesis by blast
  qed
qed

lemma sys_run_trace:
  assumes "sys_run rc env s0 es s" "env_ok env" "rsState (snd s0) = Map.empty"
  shows "trace_inv env es (snd s) \<and> sorted_wrt separated es"
  using assms(1)
proof (induction rule: sys_run.induct)
  case start
  then show ?case using assms(3) by (simp add: trace_inv_def)
next
  case (step es s e s')
  from step.hyps(2) step.IH show ?case
  proof (cases rule: sys_step.cases)
    case (reconcile i svcs current st result svc' st')
    have inv: "trace_inv env es st" using step.IH reconcile by simp
    have "sorted_wrt separated (event_of env (svcs ! i) current st result)"
      by (cases rule: event_of_cases [of env "svcs ! i" current st result]) simp_all
    then show ?thesis
      using reconcile_trace [OF assms(2) inv reconcile(5)] step.IH reconcile by (simp add: sorted_wrt_append)
  next
    case (poll svcs st)
    have "trace_inv env es st" using poll step.IH by simp
    from trace_inv_later [OF assms(2) this poll_frame(1) poll_frame(3)] show ?thesis using poll step.IH by simp
  next
    case (otlp fmt recv receivedAt req st k store svcs)
    have "rsReads st \<le> k"
      using process_request_reads [of "(rsReads st, rsStore st)"] otlp(4) by (metis fst_conv)
    then have "trace_inv env es (st\<lparr>rsReads := k, rsStore := store\<rparr>)"
      using otlp step.IH by (auto intro: trace_inv_later [OF assms(2), of es st])
    then show ?thesis using otlp step.IH by simp
  next
    case (sample svcs st t key x)
    then have "trace_inv env es (st\<lparr>rsStore := snd (store_add (envOrder env) t key x (rsStore st))\<rparr>)"
      using step.IH by (auto intro: trace_inv_later [OF assms(2), of es st])
    then show ?thesis using sample step.IH by simp
  next
    case (platform svcs st a)
    then have "trace_inv env es (st\<lparr>rsPlatform := a\<rparr>)"
      using step.IH by (auto intro: trace_inv_later [OF assms(2), of es st])
    then show ?thesis using platform step.IH by simp
  qed
qed


section \<open>Events and the windows\<close>

definition last_event :: "string \<Rightarrow> scale_record list \<Rightarrow> time" where
  "last_event name es = Max (insert 0 (srNow ` {r \<in> set es. srName r = name}))"

text \<open>Every window counts only buckets that start at or after the last change of scale of its service.\<close>

definition cutoff_inv :: "scale_record list \<Rightarrow> 'p service list \<Rightarrow> bool" where
  "cutoff_inv es svcs \<longleftrightarrow> distinct (map sName svcs)
     \<and> (\<forall>svc \<in> set svcs. \<forall>w. Some (PWindow w) \<in> set (sPolicies svc) \<longrightarrow> wpResetCutoff w = last_event (sName svc) es)"

lemma last_event_append_other:
  "\<forall>r \<in> set e. srName r \<noteq> name \<Longrightarrow> last_event name (es @ e) = last_event name es"
proof -
  assume "\<forall>r \<in> set e. srName r \<noteq> name"
  then have "{r \<in> set (es @ e). srName r = name} = {r \<in> set es. srName r = name}" by auto
  then show ?thesis unfolding last_event_def by simp
qed

lemma last_event_append_new:
  assumes "srName r = name" "0 < srNow r" "\<And>r'. r' \<in> set es \<Longrightarrow> srNow r' \<le> srNow r"
  shows "last_event name (es @ [r]) = srNow r"
  unfolding last_event_def
proof (rule Max_eqI)
  show "srNow r \<in> insert 0 (srNow ` {r' \<in> set (es @ [r]). srName r' = name})" using assms(1) by auto
qed (use assms in auto)

lemma reset_policies_cutoff:
  fixes svc :: "'p service"
  shows "Some (PWindow w) \<in> set (sPolicies (reset_policies t svc)) \<Longrightarrow> wpResetCutoff w = t"
proof -
  assume "Some (PWindow w) \<in> set (sPolicies (reset_policies t svc))"
  then obtain p :: "'p policy" where "PWindow w = policy_reset t p"
    by (auto simp: reset_policies_def map_option_case split: option.splits)
  then show "wpResetCutoff w = t" by (cases p) (auto simp: window_reset_def)
qed

lemma reset_policies_name [simp]: "sName (reset_policies t svc) = sName svc"
  by (simp add: reset_policies_def)

lemma reconcile_cutoff:
  assumes env: "env_ok env" and inv: "trace_inv env es st" and c: "cutoff_inv es svcs" and i: "i < length svcs"
    and r: "reconcile_service rc env (svcs ! i) current st = Some (result, svc', st')"
  shows "cutoff_inv (es @ event_of env (svcs ! i) current st result) (svcs[i := svc'])"
proof -
  let ?now = "envClock env (rsReads st)"
  note eff = reconcile_effect [OF r, unfolded reconcile_now_def]
  have mem: "svcs ! i \<in> set svcs" using i by simp
  show ?thesis
  proof (cases rule: event_of_cases [of env "svcs ! i" current st result])
    case 1
    have "svc' = svcs ! i" using outcome_effect_quiet [OF eff(1) 1(2)] by blast
    then show ?thesis using 1(1) c by simp
  next
    case (2 d n)
    let ?r = "\<lparr>srName = sName (svcs ! i), srDirection = d, srCurrent = current, srDesired = n, srNow = ?now,
      srChecked = envClock env (rsReads st + 2), srCooldown = sCooldown (svcs ! i)\<rparr>"
    have svc': "svc' = reset_policies ?now (svcs ! i)"
      using outcome_effect_change [OF eff(1) 2(1)] by blast
    have names: "map sName (svcs[i := svc']) = map sName svcs"
      using i by (simp add: map_update svc' list_update_same_conv)
    have new: "last_event (sName (svcs ! i)) (es @ [?r]) = ?now"
      using last_event_append_new [of ?r "sName (svcs ! i)" es] env_clock_pos [OF env] inv
      by (simp add: trace_inv_def)
    have "wpResetCutoff w = last_event (sName svc) (es @ [?r])"
      if svc: "svc \<in> set (svcs[i := svc'])" and w: "Some (PWindow w) \<in> set (sPolicies svc)" for svc w
    proof -
      from svc obtain j where j: "j < length svcs" "svc = svcs[i := svc'] ! j" by (auto simp: in_set_conv_nth)
      show ?thesis
      proof (cases "j = i")
        case True
        with j svc' w new reset_policies_cutoff [of w ?now "svcs ! i"] show ?thesis by simp
      next
        case False
        have "sName (svcs ! j) \<noteq> sName (svcs ! i)"
          using c False i j(1) by (auto simp: cutoff_inv_def distinct_conv_nth)
        with False j w c show ?thesis
          using last_event_append_other [of "[?r]" "sName (svcs ! j)" es] by (auto simp: cutoff_inv_def)
      qed
    qed
    with names c 2(2) show ?thesis by (simp add: cutoff_inv_def)
  qed
qed

lemma sys_run_cutoff:
  assumes "sys_run rc env s0 es s" "env_ok env" "rsState (snd s0) = Map.empty" "cutoff_inv [] (fst s0)"
  shows "cutoff_inv es (fst s)"
  using assms(1)
proof (induction rule: sys_run.induct)
  case start
  then show ?case using assms(4) by simp
next
  case (step es s e s')
  from step.hyps(2) step.IH show ?case
  proof (cases rule: sys_step.cases)
    case (reconcile i svcs current st result svc' st')
    have "trace_inv env es st" using sys_run_trace [OF step.hyps(1) assms(2,3)] reconcile by simp
    from reconcile_cutoff [OF assms(2) this _ reconcile(4) reconcile(5)] reconcile step.IH show ?thesis by simp
  qed (use step.IH in simp_all)
qed


section \<open>What a window demands of the time between two changes\<close>

definition windows_only :: "duration \<Rightarrow> 'p service \<Rightarrow> bool" where
  "windows_only T svc \<longleftrightarrow> (\<forall>q \<in> set (sPolicies svc). \<exists>w. q = Some (PWindow w) \<and> window_ok w
     \<and> pred_option (\<lambda>th. T \<le> thSustainedFor th) (wpUpscale w) \<and> pred_option (\<lambda>th. T \<le> thSustainedFor th) (wpDownscale w))"

lemma sustained_since_cutoff:
  assumes "sustained p xs now width (s div width) cutoff" "0 < width" "0 < s" "s mod width = 0" "cutoff \<noteq> 0"
  shows "cutoff + s \<le> now"
proof -
  have "cutoff \<le> window_slot now width (s div width) 0" using assms(1,5) by (simp add: sustained_def)
  also have "\<dots> = time_truncate now width - s" 
    using assms(4) by (simp add: window_slot_def) (metis add.right_neutral div_mult_mod_eq)
  also have "\<dots> \<le> now - s" using assms(2) by (simp add: time_truncate_def)
  finally show ?thesis by simp
qed


lemma change_needs_decision:
  assumes "ds \<noteq> []" "compute_desired current ds \<noteq> current"
  shows "\<exists>d \<in> set ds. desiredCount d \<noteq> current"
proof (rule ccontr)
  assume "\<not> ?thesis"
  then have "desiredCount ` set ds = {current}" using assms(1) by (cases ds) auto
  then have "compute_desired current ds = current"
    by (simp add: compute_desired_eq [OF assms(1)])
  with assms(2) show False ..
qed

lemma evaluate_policies_decision:
  "evaluate_policies eng ps current sn now = Some (ds, ws) \<Longrightarrow> d \<in> set ds \<Longrightarrow>
   \<exists>p ev. Some p \<in> set ps \<and> policy_evaluate eng p current sn now = Some (Inr ev) \<and> evDecision ev = Some d"
proof (induction ps arbitrary: ds ws)
  case (Cons q ps)
  then obtain p r ds' ws' where q: "q = Some p" and r: "policy_evaluate eng p current sn now = Some r"
    and rest: "evaluate_policies eng ps current sn now = Some (ds', ws')"
    by (cases q) (auto simp: bind_eq_Some_conv)
  show ?case
  proof (cases "d \<in> set ds'")
    case True
    with Cons.IH [OF rest] show ?thesis by auto
  next
    case False
    with Cons.prems q r rest show ?thesis by (auto split: sum.splits option.splits)
  qed
qed simp

lemma window_change_sustained:
  assumes "series_map_ok m" "window_ok w" "window_evaluate w current (metric_snapshot m) now = Some ev"
    "evDecision ev = Some d" "desiredCount d \<noteq> current"
  defines "xs \<equiv> snapshot_samples m (MetricKey (wpService w) (wpMetric w))"
  shows "window_up w xs now \<or> window_down w xs now"
proof (rule ccontr)
  assume "\<not> ?thesis"
  then have "case wpUpscale w of Some th \<Rightarrow> \<not> direction_holds (\<lambda>v t. f64_less t v) w th xs now | None \<Rightarrow> True"
    and n: "\<forall>th. wpDownscale w = Some th \<longrightarrow> \<not> direction_holds f64_less w th xs now"
    by (auto simp: window_up_def window_down_def split: option.splits)
  with ms.window_decision [OF assms(1,2), of current now] assms(3,4,5) show False
    unfolding xs_def by (auto split: option.splits)
qed

lemma window_waits:
  assumes "series_map_ok m" "window_ok w" "window_evaluate w current (metric_snapshot m) now = Some ev"
    "evDecision ev = Some d" "desiredCount d \<noteq> current" "wpResetCutoff w \<noteq> 0"
    and T: "pred_option (\<lambda>th. T \<le> thSustainedFor th) (wpUpscale w)" "pred_option (\<lambda>th. T \<le> thSustainedFor th) (wpDownscale w)"
  shows "wpResetCutoff w + T \<le> now"
proof -
  from window_change_sustained [OF assms(1-5)] obtain th p where
    th: "wpUpscale w = Some th \<or> wpDownscale w = Some th"
    and s: "sustained p (snapshot_samples m (MetricKey (wpService w) (wpMetric w))) now (wpBucketDuration w)
      (thSustainedFor th div wpBucketDuration w) (wpResetCutoff w)"
    by (auto simp: window_up_def window_down_def direction_holds_def)
  have ok: "0 < wpBucketDuration w" "threshold_ok (wpBucketDuration w) th"
    using th assms(2) by (auto simp: window_ok_def)
  then have "wpResetCutoff w + thSustainedFor th \<le> now"
    using sustained_since_cutoff [OF s ok(1) _ _ assms(6)] by (simp add: threshold_ok_def)
  moreover have "T \<le> thSustainedFor th" using th T by auto
  ultimately show ?thesis by simp
qed

lemma reconcile_waits:
  assumes r: "reconcile_service rc env svc current st = Some (result, svc', st')"
    and res: "result = Scaled d n \<or> result = DryRunScale d n"
    and b: "reconcile_bounds env svc st = (mn, mx)" "mn \<le> current" "current \<le> mx"
    and ok: "env_ok env" "store_ok (rsStore st)" "windows_only T svc"
    and c: "\<And>w. Some (PWindow w) \<in> set (sPolicies svc) \<Longrightarrow> wpResetCutoff w = c" "c \<noteq> 0"
  shows "c + T \<le> reconcile_now env st"
proof -
  from reconcile_scaled [OF r res] b obtain ds ws where
    e: "evaluate_policies (envEngine env) (sPolicies svc) current (reconcile_snapshot env st) (reconcile_now env st) = Some (ds, ws)"
    and ds: "ds \<noteq> []" and n: "n = clamp (compute_desired current ds) mn mx" "n \<noteq> current" by auto
  have "compute_desired current ds \<noteq> current" using n b(2,3) by (auto simp: clamp_def)
  from change_needs_decision [OF ds this] obtain d where d: "d \<in> set ds" "desiredCount d \<noteq> current" by blast
  from evaluate_policies_decision [OF e d(1)] obtain p ev where
    p: "Some p \<in> set (sPolicies svc)" and ev: "evDecision ev = Some d"
    "policy_evaluate (envEngine env) p current (reconcile_snapshot env st) (reconcile_now env st) = Some (Inr ev)" by blast
  from p ok(3) obtain w where w: "p = PWindow w" "window_ok w"
    "pred_option (\<lambda>th. T \<le> thSustainedFor th) (wpUpscale w)" "pred_option (\<lambda>th. T \<le> thSustainedFor th) (wpDownscale w)"
    by (fastforce simp: windows_only_def)
  from reconcile_snapshot_ok [OF ok(1,2)] obtain m where m: "series_map_ok m" "reconcile_snapshot env st = metric_snapshot m"
    by (auto simp: snapshot_ok_def)
  have cw: "wpResetCutoff w = c" using c(1) p w(1) by simp
  have "window_evaluate w current (metric_snapshot m) (reconcile_now env st) = Some ev"
    using ev(2) w(1) m(2) by auto
  from window_waits [OF m(1) w(2) this ev(1) d(2) _ w(3,4)] cw c(2) show ?thesis by simp
qed

lemma sys_run_store_ok:
  assumes "sys_run rc env s0 es s" "env_ok env" "store_ok (rsStore (snd s0))"
  shows "store_ok (rsStore (snd s))"
  using assms(1)
proof (induction rule: sys_run.induct)
  case start
  then show ?case using assms(3) by simp
next
  case (step es s e s')
  have ord: "range_order (envOrder env)" using assms(2) by (simp add: env_ok_def)
  from step.hyps(2) step.IH show ?case
  proof (cases rule: sys_step.cases)
    case (reconcile i svcs current st result svc' st')
    with step.IH show ?thesis
      using reconcile_effect(3) [OF reconcile(5)] store_snapshot_ok [OF _ ord] by simp
  next
    case (poll svcs st)
    with step.IH show ?thesis using poll_store_ok [OF assms(2)] by simp
  next
    case (otlp fmt recv receivedAt req st k store svcs)
    have "store_ok (rsStore st)" using step.IH otlp by simp
    from process_request_within [OF ord this, of fmt recv receivedAt req "envClock env" "rsReads st"] otlp
    show ?thesis by (simp add: store_within_def)
  next
    case (sample svcs st t key x)
    with step.IH show ?thesis using store_add_ok [OF _ ord] by simp
  qed simp
qed

lemma last_event_ge: "r \<in> set es \<Longrightarrow> srName r = name \<Longrightarrow> srNow r \<le> last_event name es"
  by (auto simp: last_event_def intro!: Max_ge)


section \<open>A run with two changes of scale\<close>

definition busy_window :: window_policy where
  "busy_window = \<lparr>wpService = ''s'', wpMetric = ''q'', wpBucketDuration = 10,
     wpUpscale = Some \<lparr>thThreshold = Fin 50, thSustainedFor = 20, thStep = 2\<rparr>, wpDownscale = None, wpResetCutoff = 0\<rparr>"

definition busy_service :: "rat service" where
  "busy_service = \<lparr>sName = ''s'', sIdentifier = ''svc'', sMinCount = 1, sMaxCount = 9,
     sCooldown = \<lparr>cdUpscale = 30, cdDownscale = 60\<rparr>, sSchedule = None,
     sMetrics = [], sPolicies = [Some (PWindow busy_window)]\<rparr>"

definition busy_env :: "rat run_env" where
  "busy_env = \<lparr>envClock = (\<lambda>i. if i = 0 then 101 else 131), envOrder = (\<lambda>m. m), envEngine = example_engine, envZones = (\<lambda>_. None)\<rparr>"

definition busy_store :: metric_store where
  "busy_store = (new_metric_store [])\<lparr>series := example_history [85, 95, 115, 125]\<rparr>"

definition busy_state :: "memory_state run_state" where
  "busy_state = initial_state busy_store [''svc'' \<mapsto> 2]"

lemma busy_env_ok: "env_ok busy_env"
  by (simp add: env_ok_def busy_env_def)

lemma busy_store_ok: "store_ok busy_store"
proof -
  have "series_map_ok (example_history [85, 95, 115, 125])" by (rule example_history_ok) auto
  then show ?thesis using new_metric_store_ok [of "[]"] by (simp add: busy_store_def store_ok_def)
qed

lemma prune_samples_idle: "series_ok (x # xs) \<Longrightarrow> c \<le> observedAt x \<Longrightarrow> prune_samples (x # xs) c = x # xs"
  by (simp add: prune_samples_def search_time_eq)

lemma busy_snapshot:
  "t \<le> 1000 \<Longrightarrow> store_snapshot (\<lambda>m. m) t busy_store = (example_history [85, 95, 115, 125], busy_store)"
proof -
  assume t: "t \<le> 1000"
  have b: "store_bounded busy_store"
    by (simp add: busy_store_def store_bounded_def new_metric_store_def total_samples_def example_history_def)
  have "prune_series (t + wrap64 (- retention busy_store)) (series busy_store) = series busy_store"
    using t by (simp add: busy_store_def new_metric_store_def prune_series_def example_history_def series_ok_def
        default_retention_def second_def wrap64_eq prune_samples_idle)
  then show ?thesis by (simp add: store_snapshot_def Let_def enforce_limits_idle [OF b]) (simp add: busy_store_def)
qed


definition since :: "time \<Rightarrow> window_policy" where
  "since c = busy_window\<lparr>wpResetCutoff := c\<rparr>"

lemma busy_up:
  assumes "(c, t) \<in> {(0, 101), (101, 131)}"
  shows "window_up (since c) (snapshot_samples (example_history [85, 95, 115, 125]) (MetricKey ''s'' ''q'')) t"
proof -
  let ?xs = "map (\<lambda>t. \<lparr>sampleValue = Fin (of_int t), observedAt = t\<rparr>) [85, 95, 115, 125]"
  let ?x = "\<lambda>t. \<lparr>sampleValue = Fin (of_int t), observedAt = t\<rparr>"
  have "sustained (f64_less (Fin 50)) ?xs 101 10 2 0"
    by (rule sustained_two [of _ _ _ "?x 85" _ "?x 95"]) (simp_all add: represents_def window_slot_def time_truncate_def)
  moreover have "sustained (f64_less (Fin 50)) ?xs 131 10 2 0"
    by (rule sustained_two [of _ _ _ "?x 115" _ "?x 125"]) (simp_all add: represents_def window_slot_def time_truncate_def)
  then have "sustained (f64_less (Fin 50)) ?xs 131 10 2 101"
    by (simp add: sustained_def window_slot_def time_truncate_def)
  ultimately show ?thesis
    using assms by (auto simp: window_up_def direction_holds_def since_def busy_window_def example_history_samples)
qed

lemma busy_reconcile:
  assumes c: "(c, envClock busy_env (rsReads st)) \<in> {(0, 101), (101, 131)}" and st: "rsStore st = busy_store"
    and pass: "cooldown_passed busy_env busy_service current ScaleUp (rsState st ''s'') (rsReads st + 2)"
    and cur: "1 \<le> current" "current \<le> 7"
  shows "\<exists>st'. reconcile_service (example_rc False) busy_env (busy_service\<lparr>sPolicies := [Some (PWindow (since c))]\<rparr>) current st =
      Some (Scaled ScaleUp (current + 2),
        busy_service\<lparr>sPolicies := [Some (PWindow (since (envClock busy_env (rsReads st))))]\<rparr>, st')
    \<and> rsStore st' = busy_store
    \<and> rsState st' = (rsState st)(''s'' \<mapsto> recorded_state ScaleUp (envClock busy_env (rsReads st)) (rsState st ''s''))"
proof -
  let ?svc = "busy_service\<lparr>sPolicies := [Some (PWindow (since c))]\<rparr>" and ?now = "envClock busy_env (rsReads st)"
  let ?m = "example_history [85, 95, 115, 125]"
  have w: "window_ok (since c)" "steps_fit (since c) current"
    using cur by (simp_all add: since_def busy_window_def window_ok_def threshold_ok_def steps_fit_def)
  have m: "series_map_ok ?m" by (rule example_history_ok) auto
  have snap: "store_snapshot (envOrder busy_env) (envClock busy_env (Suc (rsReads st))) (rsStore st) = (?m, busy_store)"
    using busy_snapshot [of 131] by (simp add: st busy_env_def)
  from window_cases [OF m w, of ?now] busy_up [OF c] obtain ev r where
    "window_evaluate (since c) current (metric_snapshot ?m) ?now = Some ev"
    "evDecision ev = Some \<lparr>desiredCount = current + 2, decisionReason = r\<rparr>"
    by (auto simp: since_def busy_window_def)
  then have e: "evaluate_policies (envEngine busy_env) (sPolicies ?svc) current (reconcile_snapshot busy_env st) (reconcile_now busy_env st)
      = Some ([\<lparr>desiredCount = current + 2, decisionReason = r\<rparr>], evWindows ev)"
    by (simp add: reconcile_snapshot_def reconcile_now_def snap)
  have b: "reconcile_bounds busy_env ?svc st = (1, 9)"
    by (simp add: reconcile_bounds_def active_bounds_def busy_service_def)
  have pass': "cooldown_passed busy_env ?svc current ScaleUp (rsState st (sName ?svc)) (rsReads st + 2)"
    using pass by (simp add: cooldown_passed_def busy_service_def split: option.splits)
  have ok: "store_ok (rsStore st)" "policies_ok (sPolicies ?svc)"
    using st busy_store_ok w(1) by (simp_all add: policies_ok_def)
  obtain result svc' st' where r: "reconcile_service (example_rc False) busy_env ?svc current st = Some (result, svc', st')"
    using reconcile_service_total [OF busy_env_ok ok] by blast
  then have "result = Scaled ScaleUp (current + 2)"
  proof (cases rule: reconcile_service_cases)
    case (1 ds ws sin sout)
    then have ds: "ds = [\<lparr>desiredCount = current + 2, decisionReason = r\<rparr>]" using e by simp
    have d: "clamp (compute_desired current ds) 1 9 = current + 2"
      using cur by (simp add: ds compute_desired_def clamp_def)
    from 1(3) [unfolded b] show ?thesis
    proof (cases rule: apply_decisions_cases)
      case (scale f st2)
      then show ?thesis
        by (auto simp: d direction_of_def execute_scale_def example_rc_def memory_adapter_def memory_scale_def
            record_scale_event_eq)
    qed (use d ds 1 pass' in \<open>auto simp: direction_of_def\<close>)
  qed
  with r reconcile_effect [OF r] show ?thesis
    by (simp add: outcome_effect_def reset_policies_def window_reset_def since_def reconcile_now_def snap busy_service_def)
qed


text \<open>The first change and the second, which follows it as soon as window and cooldown allow.\<close>

lemma busy_first:
  "\<exists>st1. reconcile_service (example_rc False) busy_env busy_service 2 busy_state =
      Some (Scaled ScaleUp 4, busy_service\<lparr>sPolicies := [Some (PWindow (since 101))]\<rparr>, st1)
    \<and> rsStore st1 = busy_store \<and> 0 < rsReads st1
    \<and> rsState st1 = [''s'' \<mapsto> \<lparr>lastUpscaleTime = 101, lastDownscaleTime = 0\<rparr>]"
proof -
  have svc: "busy_service\<lparr>sPolicies := [Some (PWindow (since 0))]\<rparr> = busy_service"
    by (simp add: busy_service_def since_def busy_window_def)
  have st: "rsStore busy_state = busy_store" "rsReads busy_state = 0" "rsState busy_state = Map.empty"
    by (simp_all add: busy_state_def initial_state_def)
  have pass: "cooldown_passed busy_env busy_service 2 ScaleUp (rsState busy_state ''s'') (rsReads busy_state + 2)"
    by (simp add: cooldown_passed_def st)
  have c: "(0, envClock busy_env (rsReads busy_state)) \<in> {(0, 101), (101, 131)}"
    by (simp add: st busy_env_def)
  from busy_reconcile [OF c st(1) pass] obtain st1 where
    r: "reconcile_service (example_rc False) busy_env busy_service 2 busy_state =
      Some (Scaled ScaleUp 4, busy_service\<lparr>sPolicies := [Some (PWindow (since 101))]\<rparr>, st1)" "rsStore st1 = busy_store"
      "rsState st1 = (rsState busy_state)(''s'' \<mapsto> recorded_state ScaleUp 101 (rsState busy_state ''s''))"
    unfolding svc by (auto simp: st busy_env_def)
  with reconcile_effect(2) [OF r(1)] show ?thesis by (simp add: st recorded_state_def)
qed

lemma busy_second:
  assumes "rsStore st1 = busy_store" "0 < rsReads st1"
    "rsState st1 = [''s'' \<mapsto> \<lparr>lastUpscaleTime = 101, lastDownscaleTime = 0\<rparr>]"
  shows "\<exists>st2. reconcile_service (example_rc False) busy_env (busy_service\<lparr>sPolicies := [Some (PWindow (since 101))]\<rparr>) 4 st1 =
      Some (Scaled ScaleUp 6, busy_service\<lparr>sPolicies := [Some (PWindow (since 131))]\<rparr>, st2)"
proof -
  have clock: "envClock busy_env (rsReads st1) = 131" "envClock busy_env (rsReads st1 + 2) = 131"
    using assms(2) by (simp_all add: busy_env_def)
  have pass: "cooldown_passed busy_env busy_service 4 ScaleUp (rsState st1 ''s'') (rsReads st1 + 2)"
    by (simp add: cooldown_passed_def assms(3) clock [simplified] time_sub_def busy_service_def)
  from busy_reconcile [OF _ assms(1) pass, of 101] show ?thesis by (auto simp: clock)
qed

definition busy_event :: "time \<Rightarrow> int \<Rightarrow> scale_record" where
  "busy_event t current = \<lparr>srName = ''s'', srDirection = ScaleUp, srCurrent = current, srDesired = current + 2, srNow = t,
     srChecked = 131, srCooldown = \<lparr>cdUpscale = 30, cdDownscale = 60\<rparr>\<rparr>"

lemma busy_run:
  obtains st1 st2 where
    "sys_run (example_rc False) busy_env ([busy_service], busy_state) [busy_event 101 2]
      ([busy_service\<lparr>sPolicies := [Some (PWindow (since 101))]\<rparr>], st1)"
    "reconcile_service (example_rc False) busy_env (busy_service\<lparr>sPolicies := [Some (PWindow (since 101))]\<rparr>) 4 st1 =
      Some (Scaled ScaleUp 6, busy_service\<lparr>sPolicies := [Some (PWindow (since 131))]\<rparr>, st2)"
    "sys_run (example_rc False) busy_env ([busy_service], busy_state) [busy_event 101 2, busy_event 131 4]
      ([busy_service\<lparr>sPolicies := [Some (PWindow (since 131))]\<rparr>], st2)"
    "envClock busy_env (rsReads st1) = 131"
proof -
  obtain st1 where r1: "reconcile_service (example_rc False) busy_env busy_service 2 busy_state =
      Some (Scaled ScaleUp 4, busy_service\<lparr>sPolicies := [Some (PWindow (since 101))]\<rparr>, st1)"
    and st1: "rsStore st1 = busy_store" "0 < rsReads st1"
      "rsState st1 = [''s'' \<mapsto> \<lparr>lastUpscaleTime = 101, lastDownscaleTime = 0\<rparr>]"
    using busy_first by blast
  from busy_second [OF st1] obtain st2 where
    r2: "reconcile_service (example_rc False) busy_env (busy_service\<lparr>sPolicies := [Some (PWindow (since 101))]\<rparr>) 4 st1 =
      Some (Scaled ScaleUp 6, busy_service\<lparr>sPolicies := [Some (PWindow (since 131))]\<rparr>, st2)" by blast
  have e1: "event_of busy_env busy_service 2 busy_state (Scaled ScaleUp 4) = [busy_event 101 2]"
    by (simp add: event_of_def busy_event_def busy_env_def busy_state_def initial_state_def busy_service_def)
  have e2: "event_of busy_env (busy_service\<lparr>sPolicies := p\<rparr>) 4 st1 (Scaled ScaleUp 6) = [busy_event 131 4]" for p
    using st1(2) by (simp add: event_of_def busy_event_def busy_env_def busy_service_def)
  from sys_step.reconcile [of 0 "[busy_service]", simplified, OF r1] have
    s1: "sys_run (example_rc False) busy_env ([busy_service], busy_state) [busy_event 101 2]
      ([busy_service\<lparr>sPolicies := [Some (PWindow (since 101))]\<rparr>], st1)"
    unfolding e1 by (rule sys_run_step)
  from sys_step.reconcile [of 0 "[busy_service\<lparr>sPolicies := [Some (PWindow (since 101))]\<rparr>]", simplified, OF r2]
  have "sys_run (example_rc False) busy_env ([busy_service], busy_state) ([busy_event 101 2] @ [busy_event 131 4])
      ([busy_service\<lparr>sPolicies := [Some (PWindow (since 131))]\<rparr>], st2)"
    unfolding e2 by (rule sys_run.step [OF s1])
  with that s1 r2 st1(2) show thesis by (simp add: busy_env_def)
qed

section \<open>Properties\<close>

text \<open>C18. The store's invariant survives every interleaving: however reconciliations, polls, OTLP requests
  and changes of the platform are interleaved, every series stays ordered by event time, finite
  and non-empty.\<close>

theorem store_sound_under_interleaving:
  assumes "sys_run rc env (svcs0, st0) es (svcs, st)" "env_ok env" "store_ok (rsStore st0)"
  shows "store_ok (rsStore st)"
  using sys_run_store_ok [OF assms(1,2)] assms(3) by simp

theorem store_sound_under_interleaving_witness:
  "\<exists>st. sys_run (example_rc False) busy_env ([busy_service], busy_state) [busy_event 101 2, busy_event 131 4]
      ([busy_service\<lparr>sPolicies := [Some (PWindow (since 131))]\<rparr>], st) \<and> store_ok (rsStore st)"
proof (rule busy_run)
  fix st1 st2
  assume r: "sys_run (example_rc False) busy_env ([busy_service], busy_state) [busy_event 101 2, busy_event 131 4]
      ([busy_service\<lparr>sPolicies := [Some (PWindow (since 131))]\<rparr>], st2)"
  have "store_ok (rsStore busy_state)" using busy_store_ok by (simp add: busy_state_def initial_state_def)
  from store_sound_under_interleaving [OF r busy_env_ok this] r show ?thesis by blast
qed

text \<open>C2. The cooldown separates changes of scale: in every interleaving that starts with no scaling
  state, of two changes of the same service in the same direction the later one is checked at
  least its configured cooldown after the evaluation time of the earlier one, unless it wakes the
  service from zero.\<close>

theorem cooldown_separates_scales:
  assumes "sys_run rc env (svcs0, initial_state store a) es s" "env_ok env" "i < j" "j < length es"
    and "srName (es ! i) = srName (es ! j)" "srDirection (es ! i) = srDirection (es ! j)"
    and "\<not> (srDirection (es ! j) = ScaleUp \<and> srCurrent (es ! j) = 0)"
    and "0 \<le> event_cooldown (es ! j)" "event_cooldown (es ! j) \<le> maxInt64"
  shows "srNow (es ! i) + event_cooldown (es ! j) \<le> srChecked (es ! j)"
proof -
  have "sorted_wrt separated es"
    using sys_run_trace [OF assms(1,2)] by (simp add: initial_state_def)
  from sorted_wrt_nth_less [OF this assms(3,4)] assms(5-) show ?thesis by (simp add: separated_def)
qed

theorem cooldown_separates_scales_witness:
  "srNow (busy_event 101 2) + event_cooldown (busy_event 131 4) \<le> srChecked (busy_event 131 4)
   \<and> event_cooldown (busy_event 131 4) = 30"
proof (rule busy_run)
  fix st1 st2
  assume "sys_run (example_rc False) busy_env ([busy_service], busy_state) [busy_event 101 2, busy_event 131 4]
      ([busy_service\<lparr>sPolicies := [Some (PWindow (since 131))]\<rparr>], st2)"
  then have r: "sys_run (example_rc False) busy_env ([busy_service], initial_state busy_store [''svc'' \<mapsto> 2])
      [busy_event 101 2, busy_event 131 4] ([busy_service\<lparr>sPolicies := [Some (PWindow (since 131))]\<rparr>], st2)"
    by (simp only: busy_state_def)
  from cooldown_separates_scales [OF r busy_env_ok, of 0 1] show ?thesis
    by (simp add: busy_event_def event_cooldown_def)
qed

text \<open>Windows restart after every change of scale: in every interleaving the cutoff of each window is
  the time of the last change of its service, and zero before the first.\<close>

theorem windows_restart_after_every_scale:
  assumes "sys_run rc env (svcs0, initial_state store a) es (svcs, st)" "env_ok env" "distinct (map sName svcs0)"
    and "\<And>svc w. svc \<in> set svcs0 \<Longrightarrow> Some (PWindow w) \<in> set (sPolicies svc) \<Longrightarrow> wpResetCutoff w = 0"
    and "svc \<in> set svcs" "Some (PWindow w) \<in> set (sPolicies svc)"
  shows "wpResetCutoff w = Max (insert 0 (srNow ` {r \<in> set es. srName r = sName svc}))"
proof -
  have "cutoff_inv [] svcs0" using assms(3,4) by (auto simp: cutoff_inv_def last_event_def)
  from sys_run_cutoff [OF assms(1,2) _ ] this assms(5,6) show ?thesis
    by (auto simp: cutoff_inv_def last_event_def initial_state_def)
qed

theorem windows_restart_after_every_scale_witness:
  "wpResetCutoff (since 131) = Max (insert 0 (srNow ` {r \<in> set [busy_event 101 2, busy_event 131 4]. srName r = ''s''}))"
proof (rule busy_run)
  fix st1 st2
  let ?svc = "busy_service\<lparr>sPolicies := [Some (PWindow (since 131))]\<rparr>"
  assume "sys_run (example_rc False) busy_env ([busy_service], busy_state) [busy_event 101 2, busy_event 131 4] ([?svc], st2)"
  then have r: "sys_run (example_rc False) busy_env ([busy_service], initial_state busy_store [''svc'' \<mapsto> 2])
      [busy_event 101 2, busy_event 131 4] ([?svc], st2)"
    by (simp only: busy_state_def)
  from windows_restart_after_every_scale [OF r busy_env_ok, of ?svc "since 131"] show ?thesis
    by (simp add: busy_service_def busy_window_def)
qed



section \<open>Scaling up happens\<close>

lemma evaluate_policies_complete:
  "evaluate_policies eng ps current sn now = Some (ds, ws) \<Longrightarrow> Some p \<in> set ps \<Longrightarrow>
   policy_evaluate eng p current sn now = Some (Inr ev) \<Longrightarrow> evDecision ev = Some d \<Longrightarrow> d \<in> set ds"
proof (induction ps arbitrary: ds ws)
  case (Cons q ps)
  from Cons.prems(1) obtain p' r ds' ws' where q: "q = Some p'" and r: "policy_evaluate eng p' current sn now = Some r"
    and rest: "evaluate_policies eng ps current sn now = Some (ds', ws')"
    by (cases q) (auto simp: bind_eq_Some_conv)
  show ?case
  proof (cases "Some p \<in> set ps")
    case True
    with Cons.IH [OF rest _ Cons.prems(3,4)] Cons.prems(1) q r rest show ?thesis by (auto split: sum.splits option.splits)
  next
    case False
    with Cons.prems q r rest show ?thesis by auto
  qed
qed simp

lemma compute_desired_up:
  assumes "d \<in> set ds" "current < desiredCount d"
  shows "desiredCount d \<le> compute_desired current ds"
proof -
  have "ds \<noteq> []" using assms(1) by auto
  moreover have "desiredCount d \<le> Max (desiredCount ` set ds)" using assms(1) by (intro Max_ge) auto
  ultimately show ?thesis using assms(2) by (simp add: compute_desired_eq Let_def)
qed

lemma apply_decisions_up:
  assumes "apply_decisions rc env svc current now bounds ds st = (result, svc', st')"
    and "ds \<noteq> []" "current < clamp (compute_desired current ds) (fst bounds) (snd bounds)"
    and "cooldown_passed env svc current ScaleUp (rsState st (sName svc)) (rsReads st)"
    and "\<not> rcDryRun rc" "\<And>n a. \<exists>a'. Scale (rcAdapter rc) (sIdentifier svc) n a = (Inr (), a')"
  shows "result = Scaled ScaleUp (clamp (compute_desired current ds) (fst bounds) (snd bounds))"
  using assms(1)
proof (cases rule: apply_decisions_cases)
  case (scale f st2)
  let ?n = "clamp (compute_desired current ds) (fst bounds) (snd bounds)"
  obtain a' where "Scale (rcAdapter rc) (sIdentifier svc) ?n (rsPlatform st2) = (Inr (), a')" using assms(6) by blast
  with scale(3) assms(3,5) show ?thesis
    by (simp add: execute_scale_def Let_def record_scale_event_eq direction_of_def)
qed (use assms in \<open>auto simp: direction_of_def\<close>)

lemma breach_scales_up:
  assumes "env_ok env" "store_ok (rsStore st)" "policies_ok (sPolicies svc)"
    and "Some (PWindow w) \<in> set (sPolicies svc)" "wpUpscale w = Some th" "steps_fit w current"
    and "window_up w (snapshot_samples (fst (store_snapshot (envOrder env) (envClock env (Suc (rsReads st))) (rsStore st)))
      (MetricKey (wpService w) (wpMetric w))) (envClock env (rsReads st))"
    and "active_bounds (envZones env) svc (envClock env (rsReads st)) = (mn, mx)" "mn \<le> mx" "current < mx"
    and "cooldown_passed env svc current ScaleUp (rsState st (sName svc)) (rsReads st + 2)"
    and "\<not> rcDryRun rc" "\<And>n a. \<exists>a'. Scale (rcAdapter rc) (sIdentifier svc) n a = (Inr (), a')"
  shows "\<exists>n svc' st'. reconcile_service rc env svc current st = Some (Scaled ScaleUp n, svc', st')
    \<and> min mx (current + thStep th) \<le> n \<and> n \<le> mx \<and> current < n"
proof -
  let ?m = "fst (store_snapshot (envOrder env) (envClock env (Suc (rsReads st))) (rsStore st))"
  have sn: "reconcile_snapshot env st = metric_snapshot ?m" by (simp add: reconcile_snapshot_def)
  have m: "series_map_ok ?m"
    using assms(1,2) store_snapshot_ok by (simp add: env_ok_def store_ok_def)
  have w: "window_ok w" using assms(3,4) by (fastforce simp: policies_ok_def)
  have step: "0 < thStep th" using steps_fit_wrap(1) [OF w assms(6,5)] by simp
  from window_cases [OF m w assms(6), of "reconcile_now env st"] assms(5,7) obtain ev r where
    ev: "window_evaluate w current (reconcile_snapshot env st) (reconcile_now env st) = Some ev"
      "evDecision ev = Some \<lparr>desiredCount = current + thStep th, decisionReason = r\<rparr>"
    by (auto simp: sn reconcile_now_def)
  obtain result svc' st' where r: "reconcile_service rc env svc current st = Some (result, svc', st')"
    using reconcile_service_total [OF assms(1-3)] by blast
  then show ?thesis
  proof (cases rule: reconcile_service_cases)
    case (1 ds ws sin sout)
    have d: "\<lparr>desiredCount = current + thStep th, decisionReason = r\<rparr> \<in> set ds"
      using evaluate_policies_complete [OF 1(2) assms(4)] ev by simp
    then have ds: "ds \<noteq> []" by auto
    have b: "reconcile_bounds env svc st = (mn, mx)"
      using assms(8) by (simp add: reconcile_bounds_def reconcile_now_def)
    have le: "current + thStep th \<le> compute_desired current ds"
      using compute_desired_up [OF d] step by simp
    then have n: "min mx (current + thStep th) \<le> clamp (compute_desired current ds) mn mx"
      "clamp (compute_desired current ds) mn mx \<le> mx" "current < clamp (compute_desired current ds) mn mx"
      using assms(9,10) step by (auto simp: clamp_def)
    have "result = Scaled ScaleUp (clamp (compute_desired current ds) mn mx)"
      using apply_decisions_up [OF 1(3) ds _ _ assms(12,13)] n(3) 1(4,6) assms(11) by (simp add: b)
    with r n show ?thesis by blast
  qed
qed



end
