(* ===== verification/Retention.thy ===== *)
theory Retention
  imports Config_Build
begin

text \<open>
  How the retention that \<^verbatim>\<open>config.MetricRetention\<close> computes and \<^verbatim>\<open>main.run\<close> gives to the store
  (\<^verbatim>\<open>metrics.WithRetention\<close>) fits the windows that the policies evaluate: pruning by age never
  changes what a configured window sees, as long as the snapshot is taken within one bucket of
  the evaluation time.
\<close>

section \<open>Pruning and buckets\<close>

lemma bucket_at_prune:
  assumes "series_ok xs" "0 \<le> width" "c \<le> bucket_start os width i"
  shows "bucket_at (prune_samples xs c) os width i = bucket_at xs os width i"
proof -
  let ?ys = "prune_samples xs c" and ?a = "bucket_start os width i"
  have ys: "series_ok ?ys" "set ?ys \<subseteq> set xs" "\<And>x. x \<in> set xs \<Longrightarrow> c \<le> observedAt x \<Longrightarrow> x \<in> set ?ys"
    using assms(1) by (auto dest: set_prune_samples prune_samples_keeps)
  show ?thesis
  proof (cases "bucket_at xs os width i")
    case None
    then have "bucket_at ?ys os width i = None"
      using bucket_at_None_iff [OF assms(1,2)] bucket_at_None_iff [OF ys(1) assms(2)] ys(2) by blast
    with None show ?thesis by simp
  next
    case (Some b)
    note b = bucket_at_Some [OF assms(1,2) Some]
    have in_ys: "bucketSample b \<in> set ?ys"
      using b assms(3) by (auto simp: represents_def intro: ys(3))
    have "bucket_at ?ys os width i \<noteq> None"
      using bucket_at_None_iff [OF ys(1) assms(2), of os i] in_ys b by (auto simp: represents_def)
    then obtain b' where Some': "bucket_at ?ys os width i = Some b'" by blast
    note b' = bucket_at_Some [OF ys(1) assms(2) Some']
    have "represents ?ys (bucketStart b') (bucketEnd b') (bucketSample b)"
      using b b'(1,2) in_ys ys(2) by (auto simp: represents_def)
    then have "bucketSample b' = bucketSample b" using represents_unique [OF ys(1) b'(3)] by simp
    with b b' have "b' = b" by (intro bucket.equality) simp_all
    with Some Some' show ?thesis by simp
  qed
qed

lemma snapshot_samples_prune:
  "series_map_ok m \<Longrightarrow> snapshot_samples (prune_series c m) key = prune_samples (snapshot_samples m key) c"
  by (simp add: snapshot_samples_def Let_def series_of_prune)

lemma complete_buckets_prune:
  assumes m: "series_map_ok m" and fits: "window_fits width cnt" and c: "c \<le> window_slot now width cnt 0"
  shows "complete_buckets (prune_series c m) key now width cnt after = complete_buckets m key now width cnt after"
proof -
  let ?os = "window_oldest_start now width cnt"
  have w: "0 < width" using fits by (simp add: window_fits_def)
  have start: "c \<le> bucket_start ?os width i" if "i \<in> set [0..<nat cnt]" for i
    using that fits window_slot_mono [OF w, of 0 i now cnt] c by (simp add: window_bucket_start)
  have xs: "series_ok (snapshot_samples m key)" using m by simp
  have found: "map (bucket_at (prune_samples (snapshot_samples m key) c) ?os width) [0..<nat cnt]
      = map (bucket_at (snapshot_samples m key) ?os width) [0..<nat cnt]"
    using start bucket_at_prune [OF xs less_imp_le [OF w]] by (intro map_cong [OF refl]) blast
  show ?thesis
    unfolding complete_buckets_def snapshot_samples_prune [OF m] Let_def found
    by (simp add: xs)
qed

lemma evaluate_direction_prune:
  assumes "series_map_ok m" "0 < wpBucketDuration w" "threshold_ok (wpBucketDuration w) th"
    and "c \<le> window_slot now (wpBucketDuration w) (thSustainedFor th div wpBucketDuration w) 0"
  shows "evaluate_direction w (metric_snapshot (prune_series c m)) key now cutoff current d th compare
       = evaluate_direction w (metric_snapshot m) key now cutoff current d th compare"
  unfolding evaluate_direction_def threshold_required(1) [OF assms(2,3)]
  by (simp add: metric_snapshot_def complete_buckets_prune [OF assms(1) threshold_required(2) [OF assms(2,3)] assms(4)])

lemma window_evaluate_prune:
  assumes "series_map_ok m" "window_ok w"
    and "\<And>th. wpUpscale w = Some th \<or> wpDownscale w = Some th \<Longrightarrow>
      c \<le> window_slot now (wpBucketDuration w) (thSustainedFor th div wpBucketDuration w) 0"
  shows "window_evaluate w current (metric_snapshot (prune_series c m)) now = window_evaluate w current (metric_snapshot m) now"
proof -
  have same: "evaluate_direction w (metric_snapshot (prune_series c m)) key now cutoff current d th compare
      = evaluate_direction w (metric_snapshot m) key now cutoff current d th compare"
    if "wpUpscale w = Some th \<or> wpDownscale w = Some th" for th key cutoff d compare
    using evaluate_direction_prune [OF assms(1) _ _ assms(3) [OF that]] assms(2) that
    by (auto simp: window_ok_def)
  then show ?thesis
    by (cases "wpUpscale w"; cases "wpDownscale w") (simp_all add: window_evaluate_def Let_def same)
qed

section \<open>The windows of built services\<close>

lemma map_result_mem:
  "map_result f xs = Inr ys \<Longrightarrow> y \<in> set ys \<Longrightarrow> \<exists>x \<in> set xs. f x = Inr y"
  by (induction xs arbitrary: ys) (auto split: sum.splits)

lemma built_window_configured:
  assumes "build_services eng cfg = Inr svcs" "svc \<in> set svcs" "Some (PWindow w) \<in> set (sPolicies svc)"
    and "wpUpscale w = Some th \<or> wpDownscale w = Some th"
  shows "(wpBucketDuration w, thSustainedFor th) \<in> set (configured_windows cfg)"
proof -
  obtain sc where sc: "sc \<in> set (Services cfg)" "build_service eng sc = Inr svc"
    using map_result_mem [OF assms(1) [unfolded build_services_def] assms(2)] by blast
  then obtain ps where "map_result (build_policy eng (svName sc) (map mbcName (svMetrics sc))) (svPolicies sc) = Inr ps"
    and "sPolicies svc = ps"
    by (auto simp: build_service_def split: option.splits sum.splits)
  with map_result_mem assms(3) obtain p where p: "p \<in> set (svPolicies sc)"
    "build_policy eng (svName sc) (map mbcName (svMetrics sc)) p = Inr (Some (PWindow w))" by metis
  then obtain width where "pcType p = ''window''" "pcBucketDuration p = Some width" "wpBucketDuration w = width"
    "wpUpscale w = map_option build_threshold (pcUpscale p)" "wpDownscale w = map_option build_threshold (pcDownscale p)"
    by (auto simp: build_policy_def split: if_splits option.splits sum.splits)
  with assms(4) have "(wpBucketDuration w, thSustainedFor th) \<in> set (policy_windows p)"
    by (auto simp: policy_windows_def build_threshold_def List.map_filter_simps split: option.splits)
  with sc(1) p(1) show ?thesis by (auto simp: configured_windows_def)
qed

lemma retention_reaches_slot:
  assumes "(width, s) \<in> set (configured_windows cfg)" "0 < width" "width dvd s" "0 \<le> s" "s + 2 * width \<le> maxInt64"
    and "now \<le> t" "t \<le> now + width"
  shows "t - MetricRetention cfg \<le> window_slot now width (s div width) 0"
proof -
  have "window_retention (width, s) \<le> MetricRetention cfg"
    unfolding MetricRetention_Max using assms(1) by (intro Max_ge) auto
  then have r: "s + 2 * width \<le> MetricRetention cfg"
    using assms(2,4,5) by (simp add: window_retention_def wrap64_id)
  have "window_slot now width (s div width) 0 = time_truncate now width - s"
    using assms(3) by (simp add: window_slot_def)
  then show ?thesis using r assms(7) time_truncate_gt [OF assms(2), of now] by linarith
qed


section \<open>Properties\<close>

text \<open>C11. The retention never hides data from a window: for a validated configuration whose sums fit 64
  bits, a store within its limits that has the configured retention and a snapshot taken at most
  one bucket after the evaluation time, expiry changes nothing of what a configured window
  policy decides or reports, whenever it was last reset.\<close>

theorem retention_never_hides_a_window:
  fixes raw :: config
  defines "cfg \<equiv> apply_defaults raw"
  assumes "range_order vo" "validate vo tzdb eng cfg = None" "config_int64 cfg"
    and "\<forall>(width, sustained_for) \<in> set (configured_windows cfg). sustained_for + 2 * width \<le> maxInt64"
    and "build_services eng cfg = Inr svcs" "svc \<in> set svcs"
    and "Some (PWindow w) \<in> set (sPolicies svc)"
    and "store_ok s" "store_bounded s" "retention s = MetricRetention cfg"
    and "now \<le> t" "t \<le> now + wpBucketDuration w"
  shows "window_evaluate (window_reset w r) current (metric_snapshot (fst (store_snapshot ro t s))) now
       = window_evaluate (window_reset w r) current (metric_snapshot (series s)) now"
proof -
  have ok: "list_all service_ok svcs"
    using validated_builds [of vo tzdb eng raw] assms(2-4,6) by (auto simp: cfg_def)
  have w: "window_ok w"
    using ok assms(7,8) by (fastforce simp: list_all_iff service_ok_def)
  then have wr: "window_ok (window_reset w r)" by simp
  have ret: "wrap64 (- retention s) = - MetricRetention cfg"
    using MetricRetention_int64 [of cfg] by (simp add: assms(11) second_def wrap64_id)
  have slot: "t - MetricRetention cfg \<le> window_slot now (wpBucketDuration w) (thSustainedFor th div wpBucketDuration w) 0"
    if th: "wpUpscale w = Some th \<or> wpDownscale w = Some th" for th
  proof (rule retention_reaches_slot)
    show in_cfg: "(wpBucketDuration w, thSustainedFor th) \<in> set (configured_windows cfg)"
      using built_window_configured [OF assms(6-8) th] .
    then show "thSustainedFor th + 2 * wpBucketDuration w \<le> maxInt64" using assms(5) by auto
  qed (use w th assms(12,13) in \<open>auto simp: window_ok_def threshold_ok_def\<close>)
  have "series_map_ok (series s)" using assms(9) by (simp add: store_ok_def)
  from window_evaluate_prune [OF this wr] slot show ?thesis
    by (simp add: store_snapshot_idle [OF assms(9,10)] ret window_reset_def)
qed

definition example_history_80 :: metric_store where
  "example_history_80 = (new_metric_store [WithRetention (80 * second)])\<lparr>series :=
     [(MetricKey ''api'' ''q'', [\<lparr>sampleValue = Fin 1, observedAt = 5 * second\<rparr>, \<lparr>sampleValue = Fin 2, observedAt = 95 * second\<rparr>])]\<rparr>"

theorem retention_never_hides_a_window_witness:
  "\<exists>w. wpBucketDuration w = 10 * second
    \<and> window_evaluate (window_reset w 0) 3 (metric_snapshot (fst (store_snapshot rev (101 * second) example_history_80))) (100 * second)
      = window_evaluate (window_reset w 0) 3 (metric_snapshot (series example_history_80)) (100 * second)"
proof -
  let ?cfg = "apply_defaults example_config"
  let ?w = "\<lparr>wpService = ''api'', wpMetric = ''q'', wpBucketDuration = 10 * second,
      wpUpscale = Some \<lparr>thThreshold = Fin 100, thSustainedFor = 60 * second, thStep = 2\<rparr>, wpDownscale = None, wpResetCutoff = 0\<rparr>"
  have v: "validate rev (\<lambda>_. None) example_engine ?cfg = None"
    using validate_config_ok [OF range_order_rev] example_config_ok by blast
  have i: "config_int64 ?cfg"
    by (simp add: example_config_simps config_int64_def policy_int64_def threshold_int64_def Let_def time_units)
  have cw: "configured_windows ?cfg = [(10 * second, 60 * second)]"
    by (simp add: configured_windows_def policy_windows_def example_config_simps Let_def List.map_filter_simps)
  obtain svcs svc where b: "build_services example_engine ?cfg = Inr svcs" "svc \<in> set svcs" "Some (PWindow ?w) \<in> set (sPolicies svc)"
    by (simp add: build_services_def build_service_def build_policy_def build_threshold_def example_config_simps Let_def)
  have s: "store_ok example_history_80" "store_bounded example_history_80" "retention example_history_80 = MetricRetention ?cfg"
    by (simp_all add: example_history_80_def new_metric_store_def store_ok_def store_bounded_def
      series_map_ok_def series_ok_def sample_ok_def f64_finite_def time_is_zero_def total_samples_def second_def
      MetricRetention_Max cw [unfolded second_def] window_retention_def wrap64_eq)
  from retention_never_hides_a_window [OF range_order_rev v i _ b s, of "100 * second" "101 * second" 0 3 rev]
  show ?thesis by (intro exI [of _ ?w]) (simp add: cw second_def)
qed

end
