(* ===== verification/Config_Load.thy ===== *)
theory Config_Load
  imports Config_Build
begin

text \<open>
  Loading the configuration (\<^verbatim>\<open>internal/config/config.go\<close>, \<^verbatim>\<open>Parse\<close>, \<^verbatim>\<open>LoadFile\<close> and
  \<^verbatim>\<open>LoadFromEnvOrFile\<close>): the base64 environment variable first, then the plain one, then the
  file. The yaml parser, the environment and the file system are parameters; base64 decoding
  is the standard library's and is written out. Text is a list of bytes.
\<close>

section \<open>Base64\<close>

definition b64_alphabet :: string where
  "b64_alphabet = ''ABCDEFGHIJKLMNOPQRSTUVWXYZabcdefghijklmnopqrstuvwxyz0123456789+/''"

definition b64_val :: "char \<Rightarrow> nat option" where
  "b64_val c =
     (let n = of_char c :: nat in
      if 65 \<le> n \<and> n \<le> 90 then Some (n - 65)
      else if 97 \<le> n \<and> n \<le> 122 then Some (n - 71)
      else if 48 \<le> n \<and> n \<le> 57 then Some (n + 4)
      else if n = 43 then Some 62
      else if n = 47 then Some 63
      else None)"

definition b64_pad :: char where
  "b64_pad = CHR ''=''"

definition byte_at :: "nat \<Rightarrow> nat \<Rightarrow> char" where
  "byte_at n k = char_of (n div 256 ^ k mod 256)"

fun b64_quantum :: "char \<Rightarrow> char \<Rightarrow> char \<Rightarrow> char \<Rightarrow> bool \<Rightarrow> string option" where
  "b64_quantum a b c d final =
     (case (b64_val a, b64_val b) of
        (Some va, Some vb) \<Rightarrow>
          (case (b64_val c, b64_val d) of
             (Some vc, Some vd) \<Rightarrow>
               let n = ((va * 64 + vb) * 64 + vc) * 64 + vd in Some [byte_at n 2, byte_at n 1, byte_at n 0]
           | (Some vc, None) \<Rightarrow>
               if d = b64_pad \<and> final
               then let n = ((va * 64 + vb) * 64 + vc) * 64 in Some [byte_at n 2, byte_at n 1] else None
           | (None, _) \<Rightarrow>
               if c = b64_pad \<and> d = b64_pad \<and> final
               then let n = (va * 64 + vb) * 4096 in Some [byte_at n 2] else None)
      | _ \<Rightarrow> None)"

fun b64_blocks :: "string \<Rightarrow> string option" where
  "b64_blocks [] = Some []"
| "b64_blocks (a # b # c # d # rest) =
     (case b64_quantum a b c d (rest = []) of
        None \<Rightarrow> None
      | Some bytes \<Rightarrow> map_option (\<lambda>more. bytes @ more) (b64_blocks rest))"
| "b64_blocks _ = None"

text \<open>\<^verbatim>\<open>base64.StdEncoding.DecodeString\<close>: line breaks are skipped, the last block may be padded.\<close>

definition b64_decode :: "string \<Rightarrow> string option" where
  "b64_decode s = b64_blocks (filter (\<lambda>c. c \<noteq> CHR 0x0A \<and> c \<noteq> CHR 0x0D) s)"

section \<open>Parse and load\<close>

definition parse ::
  "threshold_order \<Rightarrow> (string \<Rightarrow> location option) \<Rightarrow> 'p expr_engine \<Rightarrow> (string \<Rightarrow> string + config) \<Rightarrow> string
   \<Rightarrow> config_error + config" where
  "parse ro tzdb eng unmarshal data =
     (case unmarshal data of
        Inl e \<Rightarrow> Inl (ParseYamlFailed e)
      | Inr raw \<Rightarrow>
          let cfg = apply_defaults raw in
          (case validate ro tzdb eng cfg of Some e \<Rightarrow> Inl e | None \<Rightarrow> Inr cfg))"

definition load_file ::
  "threshold_order \<Rightarrow> (string \<Rightarrow> location option) \<Rightarrow> 'p expr_engine \<Rightarrow> (string \<Rightarrow> string + config)
   \<Rightarrow> (string \<Rightarrow> string + string) \<Rightarrow> string \<Rightarrow> config_error + config" where
  "load_file ro tzdb eng unmarshal readFile path =
     (case readFile path of
        Inl e \<Rightarrow> Inl (ReadConfigFailed e)
      | Inr data \<Rightarrow> parse ro tzdb eng unmarshal data)"

abbreviation EnvConfigYAML :: string where
  "EnvConfigYAML \<equiv> ''NINJASCALE_CONFIG''"

abbreviation EnvConfigYAMLBase64 :: string where
  "EnvConfigYAMLBase64 \<equiv> ''NINJASCALE_CONFIG_BASE64''"

definition load_from_env_or_file ::
  "threshold_order \<Rightarrow> (string \<Rightarrow> location option) \<Rightarrow> 'p expr_engine \<Rightarrow> (string \<Rightarrow> string + config)
   \<Rightarrow> (string \<Rightarrow> string + string) \<Rightarrow> (string \<Rightarrow> string) \<Rightarrow> string \<Rightarrow> config_error + config" where
  "load_from_env_or_file ro tzdb eng unmarshal readFile getenv path =
     (let encoded = trim_space (getenv EnvConfigYAMLBase64) in
      if encoded \<noteq> '''' then
        (case b64_decode encoded of
           None \<Rightarrow> Inl DecodeFailed
         | Some data \<Rightarrow> parse ro tzdb eng unmarshal data)
      else
        let raw = trim_space (getenv EnvConfigYAML) in
        if raw \<noteq> '''' then parse ro tzdb eng unmarshal raw
        else load_file ro tzdb eng unmarshal readFile path)"

section \<open>Encoding\<close>

text \<open>The encoder that operators use, as the specification of the decoder.\<close>

definition b64_char :: "nat \<Rightarrow> char" where
  "b64_char v = b64_alphabet ! (v mod 64)"

fun b64_encode :: "string \<Rightarrow> string" where
  "b64_encode [] = []"
| "b64_encode [x] =
     (let n = of_char x * 65536 in [b64_char (n div 262144), b64_char (n div 4096), b64_pad, b64_pad])"
| "b64_encode [x, y] =
     (let n = of_char x * 65536 + of_char y * 256 in
      [b64_char (n div 262144), b64_char (n div 4096), b64_char (n div 64), b64_pad])"
| "b64_encode (x # y # z # rest) =
     (let n = of_char x * 65536 + of_char y * 256 + of_char z in
      [b64_char (n div 262144), b64_char (n div 4096), b64_char (n div 64), b64_char n] @ b64_encode rest)"

lemma b64_char_val: "b64_val (b64_char v) = Some (v mod 64)"
proof -
  have "\<forall>k < 64. b64_val (b64_alphabet ! k) = Some k"
    unfolding b64_alphabet_def b64_val_def by (simp add: All_less_Suc eval_nat_numeral Let_def)
  then show ?thesis by (simp add: b64_char_def)
qed

lemma b64_char_plain: "\<not> is_space (b64_char v)" "b64_char v \<noteq> b64_pad"
proof -
  have "\<forall>k < 64. \<not> is_space (b64_alphabet ! k)"
    unfolding b64_alphabet_def is_space_def by (simp add: All_less_Suc eval_nat_numeral)
  then show "\<not> is_space (b64_char v)" by (simp add: b64_char_def)
  have "b64_val b64_pad = None" by (simp add: b64_val_def b64_pad_def)
  then show "b64_char v \<noteq> b64_pad" using b64_char_val [of v] by auto
qed


lemma b64_digits:
  assumes "n < 16777216"
  shows "((n div 262144 mod 64 * 64 + n div 4096 mod 64) * 64 + n div 64 mod 64) * 64 + n mod 64 = (n :: nat)"
proof -
  have d: "n div 4096 = n div 64 div 64" "n div 262144 = n div 64 div 64 div 64"
    by (simp_all flip: div_mult2_eq)
  have "n div 64 div 64 div 64 < 64" using assms by (simp flip: div_mult2_eq add: less_mult_imp_div_less)
  then show ?thesis unfolding d
    using div_mult_mod_eq [of n 64] div_mult_mod_eq [of "n div 64" 64] div_mult_mod_eq [of "n div 64 div 64" 64]
    by (simp only: mod_less)
qed

lemma byte_lt: "of_char (c :: char) < (256 :: nat)"
  by (metis of_char_mod_256 mod_less_divisor zero_less_numeral)

lemma three_bytes:
  assumes "a < 256" "b < 256" "c < (256 :: nat)"
  shows "a * 65536 + b * 256 + c < 16777216" "(a * 65536 + b * 256 + c) div 65536 = a"
    "(a * 65536 + b * 256 + c) div 256 = a * 256 + b" "(a * 65536 + b * 256 + c) mod 256 = c"
proof -
  show "a * 65536 + b * 256 + c < 16777216" using assms by linarith
  show "(a * 65536 + b * 256 + c) div 65536 = a" using assms by (intro div_nat_eqI) simp_all
  show "(a * 65536 + b * 256 + c) div 256 = a * 256 + b" using assms by (intro div_nat_eqI) simp_all
  have "a * 65536 + b * 256 + c = c + (a * 256 + b) * 256" by simp
  then show "(a * 65536 + b * 256 + c) mod 256 = c" using assms by (simp only: mod_mult_self1 mod_less)
qed

lemma bytes_of:
  fixes x y z :: char
  defines "n \<equiv> (of_char x * 65536 + of_char y * 256 + of_char z :: nat)"
  shows "n < 16777216" "byte_at n 2 = x" "byte_at n 1 = y" "byte_at n 0 = z"
proof -
  note lt = byte_lt [of x] byte_lt [of y] byte_lt [of z]
  note b = three_bytes [OF lt, folded n_def]
  show "n < 16777216" by (rule b)
  show "byte_at n 2 = x" "byte_at n 1 = y" "byte_at n 0 = z"
    using lt b by (simp_all add: byte_at_def)
qed

lemma b64_quantum_full:
  fixes x y z :: char
  defines "n \<equiv> (of_char x * 65536 + of_char y * 256 + of_char z :: nat)"
  shows "b64_quantum (b64_char (n div 262144)) (b64_char (n div 4096)) (b64_char (n div 64)) (b64_char n) final = Some [x, y, z]"
  using bytes_of [of x y z] b64_digits [of n] by (simp add: b64_char_val Let_def n_def)

lemma b64_quantum_two:
  fixes x y :: char
  defines "n \<equiv> (of_char x * 65536 + of_char y * 256 :: nat)"
  shows "b64_quantum (b64_char (n div 262144)) (b64_char (n div 4096)) (b64_char (n div 64)) b64_pad True = Some [x, y]"
proof -
  have p: "b64_val b64_pad = None" by (simp add: b64_val_def b64_pad_def)
  have e: "n = of_char x * 65536 + of_char y * 256 + of_char (CHR 0x00)" by (simp add: n_def)
  note b = bytes_of [of x y "CHR 0x00", folded e]
  have "n mod 64 = 0" unfolding n_def by (simp add: mod_add_eq [symmetric] mod_mult_eq [symmetric])
  note z = this
  have r: "Y * 64 + d = n \<Longrightarrow> d = 0 \<Longrightarrow> Y * 64 = n" for Y d by simp
  have "((n div 262144 mod 64 * 64 + n div 4096 mod 64) * 64 + n div 64 mod 64) * 64 = n"
    by (rule r [OF b64_digits [OF b(1)]]) (rule z)+
  then show ?thesis
    by (simp only: b64_quantum.simps b64_char_val p Let_def option.case prod.case simp_thms if_True b)
qed

lemma b64_quantum_one:
  fixes x :: char
  defines "n \<equiv> (of_char x * 65536 :: nat)"
  shows "b64_quantum (b64_char (n div 262144)) (b64_char (n div 4096)) b64_pad b64_pad True = Some [x]"
proof -
  have p: "b64_val b64_pad = None" by (simp add: b64_val_def b64_pad_def)
  have e: "n = of_char x * 65536 + of_char (CHR 0x00) * 256 + of_char (CHR 0x00)" by (simp add: n_def)
  note b = bytes_of [of x "CHR 0x00" "CHR 0x00", folded e]
  have "n mod 64 = 0" "n div 64 mod 64 = 0"
    unfolding n_def by (simp_all add: mod_mult_eq [symmetric])
  note z = this
  have r: "(Y * 64 + c) * 64 + d = n \<Longrightarrow> d = 0 \<Longrightarrow> c = 0 \<Longrightarrow> Y * 4096 = n" for Y c d by simp
  have "(n div 262144 mod 64 * 64 + n div 4096 mod 64) * 4096 = n"
    by (rule r [OF b64_digits [OF b(1)]]) (rule z)+
  then show ?thesis
    by (simp only: b64_quantum.simps b64_char_val p Let_def option.case prod.case simp_thms if_True b)
qed

lemma b64_blocks_encode: "b64_blocks (b64_encode s) = Some s"
proof (induction s rule: b64_encode.induct)
  case (2 x)
  then show ?case using b64_quantum_one [of x] by (simp add: Let_def del: b64_quantum.simps)
next
  case (3 x y)
  then show ?case using b64_quantum_two [of x y] by (simp add: Let_def del: b64_quantum.simps)
next
  case (4 x y z rest)
  then show ?case using b64_quantum_full [of x y z] by (simp add: Let_def del: b64_quantum.simps)
qed simp

lemma b64_pad_plain: "\<not> is_space b64_pad"
  by (simp add: b64_pad_def is_space_def)

lemma b64_encode_plain: "c \<in> set (b64_encode s) \<Longrightarrow> \<not> is_space c"
proof (induction s rule: b64_encode.induct)
  case (4 x y z rest)
  then show ?case by (auto simp: Let_def b64_char_plain)
qed (auto simp: Let_def b64_char_plain b64_pad_plain)

lemma b64_decode_encode: "b64_decode (b64_encode s) = Some s"
proof -
  have "filter (\<lambda>c. c \<noteq> CHR 0x0A \<and> c \<noteq> CHR 0x0D) (b64_encode s) = b64_encode s"
    by (rule filter_True) (auto dest!: b64_encode_plain simp: is_space_def)
  then show ?thesis by (simp add: b64_decode_def b64_blocks_encode)
qed


lemma trim_space_plain: "\<forall>c \<in> set s. \<not> is_space c \<Longrightarrow> trim_space s = s"
proof -
  assume s: "\<forall>c \<in> set s. \<not> is_space c"
  have "dropWhile is_space xs = xs" if "\<forall>c \<in> set xs. \<not> is_space c" for xs
    using that by (cases xs) auto
  from this [OF s] this [of "rev s"] s show ?thesis by (simp add: trim_space_def)
qed

lemma b64_encode_Nil_iff: "b64_encode s = [] \<longleftrightarrow> s = []"
  by (cases s rule: b64_encode.cases) (auto simp: Let_def)

section \<open>Properties\<close>

text \<open>C38. A configuration given as base64 in the environment is loaded byte for byte and takes
  precedence: if the variable holds the standard encoding of non-empty data, loading is
  parsing that data, whatever the plain variable and the file hold.\<close>

theorem base64_env_wins:
  assumes "data \<noteq> []" "getenv EnvConfigYAMLBase64 = b64_encode data"
  shows "load_from_env_or_file ro tzdb eng unmarshal readFile getenv path = parse ro tzdb eng unmarshal data"
proof -
  have "trim_space (getenv EnvConfigYAMLBase64) = b64_encode data"
    using assms(2) b64_encode_plain by (auto intro: trim_space_plain)
  with assms(1) show ?thesis
    by (simp add: load_from_env_or_file_def b64_decode_encode b64_encode_Nil_iff)
qed

theorem base64_env_wins_witness:
  "load_from_env_or_file rev (\<lambda>_. None) example_engine
     (\<lambda>data. if data = ''yaml'' then Inr example_config else Inl ''bad yaml'') (\<lambda>_. Inl ''no file'')
     (\<lambda>v. if v = EnvConfigYAMLBase64 then b64_encode ''yaml'' else ''junk'') ''f'' = Inr (apply_defaults example_config)"
proof -
  have "validate rev (\<lambda>_. None) example_engine (apply_defaults example_config) = None"
    using validate_config_ok [OF range_order_rev] example_config_ok by blast
  then show ?thesis
    by (subst base64_env_wins [where data = "''yaml''"]) (simp_all add: parse_def Let_def)
qed

end
