(* ===== verification/Startup.thy ===== *)
theory Startup
  imports System Retention Config_Load
begin

text \<open>
  The program's entry (\<^verbatim>\<open>cmd/ninjascale/main.go\<close>): \<^verbatim>\<open>main\<close> loads the configuration and applies the
  dry-run flag; \<^verbatim>\<open>run\<close> builds the store, the Prometheus sources, the adapter, the services, the
  OTLP receiver with its bindings, the reconciler and the server, and then runs the loop. What
  the program calls outside the repository is a record of parameters. Listening on the gRPC port is
  a call that may fail; what is started, stopped and cancelled is the subject of \<^theory_text>\<open>Lifecycle\<close>.
  The lemmas connect the configuration file with the running system.
\<close>

section \<open>The outside world\<close>

record ('p, 'a, 'r) world =
  wThresholds :: threshold_order
  wZones :: "string \<Rightarrow> location option"
  wEngine :: "'p expr_engine"
  wUnmarshal :: "string \<Rightarrow> string + config"
  wReadFile :: "string \<Rightarrow> string + string"
  wGetenv :: "string \<Rightarrow> string"
  wTransport :: "prom_request \<Rightarrow> 'r"
  wNewClient :: "string \<Rightarrow> (prom_request \<Rightarrow> 'r) \<Rightarrow> string + prom_api"
  wLoadAWS :: "string \<Rightarrow> string + 'a ecs_client"
  wListen :: "string \<Rightarrow> string option"

text \<open>\<^verbatim>\<open>GrpcListen\<close> is the error of \<^verbatim>\<open>net.Listen\<close> in \<^verbatim>\<open>OTLPReceiver.Start\<close>.\<close>

datatype startup_error =
    ConfigError config_error | PromSourceError prom_error | AdapterError adapter_error | GrpcListen string

section \<open>The adapter behind the interface\<close>

text \<open>The platform's state has a part for each adapter; the chosen adapter uses its own.\<close>

definition on_fst :: "('a \<Rightarrow> 'x \<times> 'a) \<Rightarrow> 'a \<times> 'b \<Rightarrow> 'x \<times> 'a \<times> 'b" where
  "on_fst f st = (case f (fst st) of (r, a) \<Rightarrow> (r, (a, snd st)))"

definition on_snd :: "('b \<Rightarrow> 'x \<times> 'b) \<Rightarrow> 'a \<times> 'b \<Rightarrow> 'x \<times> 'a \<times> 'b" where
  "on_snd f st = (case f (snd st) of (r, b) \<Rightarrow> (r, (fst st, b)))"

definition chosen_adapter :: "'a adapter_choice \<Rightarrow> ('a \<times> memory_state) adapter_api" where
  "chosen_adapter choice =
     (case choice of
        ECSAdapter client cluster \<Rightarrow>
          (let api = ecs_adapter client cluster in
           \<lparr>GetCurrentCount = (\<lambda>s. on_fst (GetCurrentCount api s)), GetCurrentCounts = (\<lambda>ss. on_fst (GetCurrentCounts api ss)),
            Scale = (\<lambda>s n. on_fst (Scale api s n)), HealthCheck = on_fst (HealthCheck api)\<rparr>)
      | MemoryAdapter \<Rightarrow>
          \<lparr>GetCurrentCount = (\<lambda>s. on_snd (GetCurrentCount memory_adapter s)),
           GetCurrentCounts = (\<lambda>ss. on_snd (GetCurrentCounts memory_adapter ss)),
           Scale = (\<lambda>s n. on_snd (Scale memory_adapter s n)), HealthCheck = on_snd (HealthCheck memory_adapter)\<rparr>)"

section \<open>Wiring\<close>

fun connect_prometheus ::
  "('p, 'a, 'r) world \<Rightarrow> prometheus_config list \<Rightarrow> (string \<times> prometheus_source) list
   \<Rightarrow> startup_error + (string \<times> prometheus_source) list" where
  "connect_prometheus wd [] promSources = Inr promSources"
| "connect_prometheus wd (pc # pcs) promSources =
     (case new_prometheus_source (wReadFile wd) (wTransport wd) (wNewClient wd) (pmName pc) (pmAddress pc) (pmBearerTokenFile pc) of
        Inl e \<Rightarrow> Inl (PromSourceError e)
      | Inr source \<Rightarrow> connect_prometheus wd pcs (AList.update (pmName pc) source promSources))"

definition register_service :: "otlp_receiver \<Rightarrow> 'p service \<Rightarrow> otlp_receiver" where
  "register_service receiver svc =
     foldl (\<lambda>r b. if mbSource b = ''otlp''
                  then register_binding (mbMetric b) (MetricKey (sName svc) (mbName b)) (mbAttributes b) r else r)
       receiver (sMetrics svc)"

definition start_receiver :: "(string \<Rightarrow> string option) \<Rightarrow> otlp_receiver \<Rightarrow> startup_error + otlp_receiver" where
  "start_receiver listen receiver =
     (case listen (grpcAddr receiver) of Some e \<Rightarrow> Inl (GrpcListen e) | None \<Rightarrow> Inr receiver)"

definition start_otlp :: "(string \<Rightarrow> string option) \<Rightarrow> config \<Rightarrow> 'p service list \<Rightarrow> startup_error + otlp_receiver option" where
  "start_otlp listen cfg services =
     (if \<not> otlpEnabled (mcOTLP (Metrics cfg)) then Inr None
      else
        let receiver = new_otlp_receiver (otlpGRPCPort (mcOTLP (Metrics cfg))) (otlpHTTPPort (mcOTLP (Metrics cfg))) in
        map_sum id Some (start_receiver listen (foldl register_service receiver services)))"

record ('p, 'a) program =
  pgServices :: "'p service list"
  pgStore :: metric_store
  pgReceiver :: "otlp_receiver option"
  pgReconciler :: "('a \<times> memory_state) reconciler"
  pgServer :: health_server
  pgServerAddress :: string

text \<open>\<^verbatim>\<open>run\<close> up to the loop.\<close>

definition run_setup :: "('p, 'a, 'r) world \<Rightarrow> config \<Rightarrow> startup_error + ('p, 'a) program" where
  "run_setup wd cfg =
     (let store = new_metric_store [WithRetention (MetricRetention cfg)] in
      case connect_prometheus wd (mcPrometheus (Metrics cfg)) [] of
        Inl e \<Rightarrow> Inl e
      | Inr promSources \<Rightarrow>
          (case new_adapter (wLoadAWS wd) (Adapter cfg) of
             Inl e \<Rightarrow> Inl (AdapterError e)
           | Inr adp \<Rightarrow>
               (case build_services (wEngine wd) cfg of
                  Inl e \<Rightarrow> Inl (ConfigError e)
                | Inr services \<Rightarrow>
                    (case start_otlp (wListen wd) cfg services of
                       Inl e \<Rightarrow> Inl e
                     | Inr receiver \<Rightarrow>
                         Inr \<lparr>pgServices = services, pgStore = store, pgReceiver = receiver,
                              pgReconciler = new_reconciler (chosen_adapter adp) promSources (ReconcileInterval cfg) (DryRun cfg),
                              pgServer = new_server, pgServerAddress = srvAddress (Server cfg)\<rparr>))))"

definition load_config :: "('p, 'a, 'r) world \<Rightarrow> string \<Rightarrow> startup_error + config" where
  "load_config wd configPath =
     map_sum ConfigError id
       (load_from_env_or_file (wThresholds wd) (wZones wd) (wEngine wd) (wUnmarshal wd) (wReadFile wd) (wGetenv wd) configPath)"

definition apply_flag :: "bool \<Rightarrow> config \<Rightarrow> config" where
  "apply_flag dryRun cfg = (if dryRun then cfg\<lparr>DryRun := True\<rparr> else cfg)"

definition main_setup :: "('p, 'a, 'r) world \<Rightarrow> string \<Rightarrow> bool \<Rightarrow> startup_error + ('p, 'a) program" where
  "main_setup wd configPath dryRun =
     (case load_config wd configPath of
        Inl e \<Rightarrow> Inl e
      | Inr cfg \<Rightarrow> run_setup wd (apply_flag dryRun cfg))"

text \<open>The reconciler's loop of the started program, for \<open>n\<close> firings of the ticker. The platform's
  state \<open>a\<close> is that of the cluster; the in-memory adapter starts empty.\<close>

definition main_run ::
  "'p run_env \<Rightarrow> nat \<Rightarrow> 'a \<Rightarrow> ('p, 'a) program \<Rightarrow> ('p service list \<times> ('a \<times> memory_state) run_state) option" where
  "main_run env n a pg =
     run_loop (pgReconciler pg) env n (pgServices pg, initial_state (pgStore pg) (a, new_memory_adapter))"

section \<open>What a loaded configuration guarantees\<close>

lemma parse_Inr:
  "parse ro tzdb eng unmarshal data = Inr cfg \<Longrightarrow> validate ro tzdb eng cfg = None \<and> (\<exists>raw. cfg = apply_defaults raw)"
  by (auto simp: parse_def Let_def split: sum.splits option.splits)

lemma loaded_config:
  assumes "load_config wd path = Inr cfg"
  shows "validate (wThresholds wd) (wZones wd) (wEngine wd) cfg = None \<and> (\<exists>raw. cfg = apply_defaults raw)"
proof -
  let ?load = "load_from_env_or_file (wThresholds wd) (wZones wd) (wEngine wd) (wUnmarshal wd) (wReadFile wd) (wGetenv wd) path"
  have "?load = Inr cfg" using assms by (cases ?load) (simp_all add: load_config_def)
  then obtain data where "parse (wThresholds wd) (wZones wd) (wEngine wd) (wUnmarshal wd) data = Inr cfg"
    by (auto simp: load_from_env_or_file_def load_file_def Let_def split: sum.splits option.splits if_splits)
  then show ?thesis by (rule parse_Inr)
qed

lemma loaded_config_ok:
  "range_order (wThresholds wd) \<Longrightarrow> load_config wd path = Inr cfg \<Longrightarrow> config_ok (wZones wd) (wEngine wd) cfg"
  using loaded_config validate_config_ok by blast

lemma apply_flag_simps [simp]:
  "Services (apply_flag f cfg) = Services cfg" "Metrics (apply_flag f cfg) = Metrics cfg"
  "Adapter (apply_flag f cfg) = Adapter cfg" "ReconcileInterval (apply_flag f cfg) = ReconcileInterval cfg"
  "DryRun (apply_flag f cfg) \<longleftrightarrow> f \<or> DryRun cfg"
  by (simp_all add: apply_flag_def)

lemma apply_flag_build [simp]:
  "build_services eng (apply_flag f cfg) = build_services eng cfg" "MetricRetention (apply_flag f cfg) = MetricRetention cfg"
  by (simp_all add: build_services_def MetricRetention_def)

lemma loaded_services:
  assumes "range_order (wThresholds wd)" "load_config wd path = Inr cfg" "config_int64 cfg"
  shows "\<exists>svcs. build_services (wEngine wd) cfg = Inr svcs \<and> list_all service_ok svcs \<and> distinct (map sName svcs)"
proof -
  from loaded_config [OF assms(2)] obtain raw where r: "cfg = apply_defaults raw"
    "validate (wThresholds wd) (wZones wd) (wEngine wd) (apply_defaults raw) = None" by blast
  from validated_builds [OF assms(1) r(2)] assms(3) r(1) show ?thesis by auto
qed

text \<open>The parts of a program that was set up.\<close>

lemma run_setup_Inr:
  assumes "run_setup wd cfg = Inr pg"
  obtains promSources adp where
    "connect_prometheus wd (mcPrometheus (Metrics cfg)) [] = Inr promSources"
    "new_adapter (wLoadAWS wd) (Adapter cfg) = Inr adp"
    "build_services (wEngine wd) cfg = Inr (pgServices pg)"
    "start_otlp (wListen wd) cfg (pgServices pg) = Inr (pgReceiver pg)"
    "pgStore pg = new_metric_store [WithRetention (MetricRetention cfg)]"
    "pgReconciler pg = new_reconciler (chosen_adapter adp) promSources (ReconcileInterval cfg) (DryRun cfg)"
  using assms by (auto simp: run_setup_def Let_def split: sum.splits)

lemma main_setup_Inr:
  assumes "load_config wd path = Inr cfg" "main_setup wd path flag = Inr pg"
  shows "run_setup wd (apply_flag flag cfg) = Inr pg"
  using assms by (simp add: main_setup_def)

lemma new_store_retention_ok: "store_ok (new_metric_store [WithRetention (MetricRetention cfg)])"
  by (rule new_metric_store_ok) (simp add: MetricRetention_int64)

section \<open>The routes of the receiver\<close>

definition service_routes :: "'p service \<Rightarrow> (string \<times> metric_key \<times> (string \<times> string) list) list" where
  "service_routes svc = map (\<lambda>b. (mbMetric b, MetricKey (sName svc) (mbName b), mbAttributes b))
     (filter (\<lambda>b. mbSource b = ''otlp'') (sMetrics svc))"

lemma register_service_all: "register_service r svc = register_all (service_routes svc) r"
proof -
  have "foldl (\<lambda>r b. if mbSource b = ''otlp'' then register_binding (mbMetric b) (MetricKey n (mbName b)) (mbAttributes b) r else r) r bs
    = register_all (map (\<lambda>b. (mbMetric b, MetricKey n (mbName b), mbAttributes b)) (filter (\<lambda>b. mbSource b = ''otlp'') bs)) r"
    for n bs
    by (induction bs arbitrary: r) (simp_all add: register_all_def)
  then show ?thesis by (simp add: register_service_def service_routes_def)
qed

lemma register_services_all: "foldl register_service r svcs = register_all (concat (map service_routes svcs)) r"
  by (induction svcs arbitrary: r) (simp_all add: register_all_def register_service_all)

lemma registered_under_concat:
  "registered_under (concat (map f xs)) raw = (\<Union>x \<in> set xs. registered_under (f x) raw)"
  by (induction xs) (simp_all add: registered_under_def image_Un)

lemma registered_service:
  "registered_under (service_routes svc) raw = (\<lambda>b. (MetricKey (sName svc) (mbName b), set (mbAttributes b))) `
     {b \<in> set (sMetrics svc). mbSource b = ''otlp'' \<and> mbMetric b = raw \<and> mbMetric b \<noteq> [] \<and> mbName b \<noteq> []}"
  by (simp add: registered_under_def service_routes_def filter_map comp_def image_image)

lemma built_binding:
  assumes "build_services eng cfg = Inr svcs" "svc \<in> set svcs" "b \<in> set (sMetrics svc)"
  shows "\<exists>sc \<in> set (Services cfg). \<exists>mc \<in> set (svMetrics sc). b = build_binding mc \<and> sName svc = svName sc"
proof -
  obtain sc where sc: "sc \<in> set (Services cfg)" "build_service eng sc = Inr svc"
    using map_result_mem [OF assms(1) [unfolded build_services_def] assms(2)] by blast
  then have "sMetrics svc = map build_binding (svMetrics sc)" "sName svc = svName sc"
    by (auto simp: build_service_def split: option.splits sum.splits)
  with sc(1) assms(3) show ?thesis by auto
qed

text \<open>What validation says of a binding of a built service.\<close>

lemma built_binding_ok:
  assumes "config_ok tzdb eng cfg" "build_services eng cfg = Inr svcs" "svc \<in> set svcs" "b \<in> set (sMetrics svc)"
  shows "mbName b \<noteq> ''''"
    "mbSource b = ''otlp'' \<and> mbMetric b \<noteq> ''''
     \<or> (\<exists>src \<in> pmName ` set (mcPrometheus (Metrics cfg)). mbSource b = ''prometheus.'' @ src)"
proof -
  obtain sc mc where sc: "sc \<in> set (Services cfg)" "mc \<in> set (svMetrics sc)" "b = build_binding mc"
    using built_binding [OF assms(2-4)] by blast
  then have "mbcName mc \<noteq> ''''" "source_ok (pmName ` set (mcPrometheus (Metrics cfg))) mc"
    using assms(1) by (auto simp: config_ok_def service_config_ok_def bindings_ok_def list_all_iff)
  with sc(3) show "mbName b \<noteq> ''''"
    "mbSource b = ''otlp'' \<and> mbMetric b \<noteq> ''''
     \<or> (\<exists>src \<in> pmName ` set (mcPrometheus (Metrics cfg)). mbSource b = ''prometheus.'' @ src)"
    by (auto simp: build_binding_def source_ok_def)
qed

section \<open>The Prometheus sources\<close>

lemma connect_prometheus_sources:
  assumes "connect_prometheus wd pcs acc = Inr sources" "\<forall>(n, s) \<in> set acc. psName s = n"
  shows "fst ` set sources = fst ` set acc \<union> pmName ` set pcs \<and> (\<forall>(n, s) \<in> set sources. psName s = n)"
  using assms
proof (induction pcs arbitrary: acc)
  case (Cons pc pcs)
  from Cons.prems(1) obtain s where
    s: "new_prometheus_source (wReadFile wd) (wTransport wd) (wNewClient wd) (pmName pc) (pmAddress pc) (pmBearerTokenFile pc) = Inr s"
    and rest: "connect_prometheus wd pcs (AList.update (pmName pc) s acc) = Inr sources"
    by (auto split: sum.splits)
  have "psName s = pmName pc"
    using s by (auto simp: new_prometheus_source_def split: sum.splits)
  then have "\<forall>(n, s) \<in> set (AList.update (pmName pc) s acc). psName s = n"
    using Cons.prems(2) set_update_subset [of "pmName pc" s acc] by auto
  from Cons.IH [OF rest this] show ?case by (simp add: dom_update Un_assoc)
qed simp

section \<open>Properties\<close>

text \<open>The world of the witnesses: a configuration file that parses to a given configuration.\<close>

definition example_world :: "config \<Rightarrow> (rat, unit, unit) world" where
  "example_world cfg = \<lparr>wThresholds = rev, wZones = (\<lambda>_. None), wEngine = example_engine,
     wUnmarshal = (\<lambda>_. Inr cfg), wReadFile = (\<lambda>_. Inr ''file''), wGetenv = (\<lambda>_. ''''),
     wTransport = (\<lambda>_. ()), wNewClient = (\<lambda>_ _. Inl ''refused''), wLoadAWS = (\<lambda>_. Inl ''no credentials''), wListen = (\<lambda>_. None)\<rparr>"

lemma example_validates: "validate rev (\<lambda>_. None) example_engine (apply_defaults example_config) = None"
  using validate_config_ok [OF range_order_rev] example_config_ok by blast

lemma example_int64: "config_int64 (apply_defaults example_config)"
  by (simp add: example_config_simps config_int64_def policy_int64_def threshold_int64_def Let_def time_units)

lemma example_loads: "load_config (example_world example_config) ''f'' = Inr (apply_defaults example_config)"
  using example_validates
  by (simp add: load_config_def load_from_env_or_file_def load_file_def example_world_def parse_def Let_def trim_space_def)

lemma example_parts:
  "mcPrometheus (Metrics (apply_defaults example_config)) = []"
  "new_adapter load (Adapter (apply_defaults example_config)) = Inr MemoryAdapter"
  "otlpEnabled (mcOTLP (Metrics (apply_defaults example_config)))"
  by (simp_all add: example_config_simps new_adapter_def Let_def)

lemma example_sets_up:
  "\<exists>pg r. main_setup (example_world example_config) ''f'' flag = Inr pg \<and> pgReceiver pg = Some r"
proof -
  obtain svcs where b: "build_services example_engine (apply_defaults example_config) = Inr svcs"
    using loaded_services [OF _ example_loads] example_int64 range_order_rev by (auto simp: example_world_def)
  then show ?thesis
    unfolding main_setup_def example_loads
    by (simp add: run_setup_def Let_def start_otlp_def start_receiver_def example_world_def example_parts)
qed

text \<open>What the loop needs of a program that was set up.\<close>

lemma started_program_ok:
  assumes "range_order (wThresholds wd)" "load_config wd path = Inr cfg" "config_int64 cfg" "0 \<le> ReconcileInterval cfg"
    and "main_setup wd path flag = Inr pg"
  shows "\<forall>svc \<in> set (pgServices pg). policies_ok (sPolicies svc)" "store_ok (pgStore pg)" "0 < rcInterval (pgReconciler pg)"
    "map sName (pgServices pg) = map svName (Services cfg)" "rcDryRun (pgReconciler pg) \<longleftrightarrow> flag \<or> DryRun cfg"
proof -
  obtain promSources adp where b: "build_services (wEngine wd) (apply_flag flag cfg) = Inr (pgServices pg)"
    and store: "pgStore pg = new_metric_store [WithRetention (MetricRetention (apply_flag flag cfg))]"
    and rc: "pgReconciler pg = new_reconciler (chosen_adapter adp) promSources (ReconcileInterval (apply_flag flag cfg))
      (DryRun (apply_flag flag cfg))"
    using run_setup_Inr [OF main_setup_Inr [OF assms(2,5)]] by metis
  obtain raw where raw: "cfg = apply_defaults raw"
    "validate (wThresholds wd) (wZones wd) (wEngine wd) (apply_defaults raw) = None"
    using loaded_config [OF assms(2)] by blast
  moreover have "map svName (Services (apply_defaults raw)) = map svName (Services raw)"
    by (simp add: apply_defaults_def Let_def default_service_def)
  ultimately have svcs: "list_all service_ok (pgServices pg)" "map sName (pgServices pg) = map svName (Services cfg)"
    using validated_builds [OF assms(1) raw(2)] assms(3) b by auto
  then show "\<forall>svc \<in> set (pgServices pg). policies_ok (sPolicies svc)" "map sName (pgServices pg) = map svName (Services cfg)"
    using service_policies_ok by (auto simp: list_all_iff)
  show "store_ok (pgStore pg)" by (simp add: store new_store_retention_ok)
  show "0 < rcInterval (pgReconciler pg)" "rcDryRun (pgReconciler pg) \<longleftrightarrow> flag \<or> DryRun cfg"
    using assms(4) by (simp_all add: rc new_reconciler_def second_def)
qed

lemma main_run_total:
  assumes "range_order (wThresholds wd)" "load_config wd path = Inr cfg" "config_int64 cfg" "0 \<le> ReconcileInterval cfg"
    and "main_setup wd path flag = Inr pg" "env_ok env"
  shows "\<exists>svcs st. main_run env n a pg = Some (svcs, st) \<and> store_ok (rsStore st)"
proof -
  note ok = started_program_ok [OF assms(1-5)]
  have "store_ok (rsStore (initial_state (pgStore pg) (a, new_memory_adapter)))"
    by (simp add: initial_state_def ok(2))
  from ticks_total [OF assms(6) this ok(1), of "pgReconciler pg" "Suc n"] ok(3) show ?thesis
    by (simp add: main_run_def run_loop_def)
qed






text \<open>A negative reconcile interval stops the program: validation accepts it, the program is set up,
  and the loop panics when it creates its ticker.\<close>

theorem negative_interval_panics:
  assumes "load_config wd path = Inr cfg" "ReconcileInterval cfg < 0" "main_setup wd path flag = Inr pg"
  shows "main_run env n a pg = None"
proof (rule run_setup_Inr [OF main_setup_Inr [OF assms(1,3)]])
  fix promSources adp
  assume "pgReconciler pg = new_reconciler (chosen_adapter adp) promSources (ReconcileInterval (apply_flag flag cfg))
      (DryRun (apply_flag flag cfg))"
  with assms(2) show ?thesis by (simp add: main_run_def run_loop_def new_reconciler_def)
qed

theorem negative_interval_panics_witness:
  "\<exists>pg. main_setup (example_world (example_config\<lparr>ReconcileInterval := -1\<rparr>)) ''f'' False = Inr pg
    \<and> main_run example_env 0 () pg = None"
proof -
  let ?raw = "example_config\<lparr>ReconcileInterval := -1\<rparr>"
  let ?cfg = "(apply_defaults example_config)\<lparr>ReconcileInterval := -1\<rparr>"
  have c: "apply_defaults ?raw = ?cfg"
    by (simp add: apply_defaults_def example_config_def Let_def)
  have "validate rev (\<lambda>_. None) example_engine ?cfg = None"
    using example_validates by (simp add: validate_def)
  then have l: "load_config (example_world ?raw) ''f'' = Inr ?cfg"
    by (simp add: load_config_def load_from_env_or_file_def load_file_def example_world_def parse_def Let_def trim_space_def c)
  obtain svcs where b: "build_services example_engine (apply_defaults example_config) = Inr svcs"
    using loaded_services [OF _ example_loads] example_int64 range_order_rev by (auto simp: example_world_def)
  then have "build_services example_engine ?cfg = Inr svcs" by (simp add: build_services_def)
  then obtain pg where pg: "main_setup (example_world ?raw) ''f'' False = Inr pg"
    unfolding main_setup_def l
    by (simp add: run_setup_def Let_def start_otlp_def start_receiver_def example_world_def example_parts)
  with negative_interval_panics [OF l _ pg] show ?thesis by simp
qed

text \<open>C34. The receiver routes what the configuration says: after startup a raw OTLP name leads to exactly
  the service-local keys, with their selectors, of the bindings of all services whose source is
  \<^verbatim>\<open>otlp\<close> and whose metric is that name, each once.\<close>

theorem configured_routes_exact:
  assumes "range_order (wThresholds wd)" "load_config wd path = Inr cfg" "main_setup wd path flag = Inr pg"
    and "pgReceiver pg = Some r"
    and "\<forall>svc \<in> set (Services cfg). \<forall>m \<in> set (svMetrics svc). distinct (map fst (mbcAttributes m))"
  shows "(\<lambda>b. (obKey b, set (obAttributes b))) ` set (bindings_of r raw) =
      {(MetricKey (sName svc) (mbName b), set (mbAttributes b)) | svc b.
         svc \<in> set (pgServices pg) \<and> b \<in> set (sMetrics svc) \<and> mbSource b = ''otlp'' \<and> mbMetric b = raw}
    \<and> distinct (map (\<lambda>b. (obKey b, set (obAttributes b))) (bindings_of r raw))"
proof (rule run_setup_Inr [OF main_setup_Inr [OF assms(2,3)]])
  fix promSources adp
  assume b: "build_services (wEngine wd) (apply_flag flag cfg) = Inr (pgServices pg)"
    and o: "start_otlp (wListen wd) (apply_flag flag cfg) (pgServices pg) = Inr (pgReceiver pg)"
  let ?regs = "concat (map service_routes (pgServices pg))"
  obtain g h where r: "r = register_all ?regs (new_otlp_receiver g h)"
    using o assms(4)
    by (auto simp: start_otlp_def start_receiver_def Let_def register_services_all split: if_splits option.splits)
  note ok = loaded_config_ok [OF assms(1,2)]
  have "distinct (map fst (mbAttributes mb))" if mb: "svc \<in> set (pgServices pg)" "mb \<in> set (sMetrics svc)" for svc mb
    using built_binding [OF b mb] assms(5) by (auto simp: build_binding_def)
  then have "\<forall>(raw, key, attributes) \<in> set ?regs. distinct (map fst attributes)"
    by (auto simp: service_routes_def)
  note routes = register_all_routes [OF this, of g h raw, folded r]
  have nn: "mbName mb \<noteq> []" "mbSource mb = ''otlp'' \<Longrightarrow> mbMetric mb \<noteq> []"
    if "svc \<in> set (pgServices pg)" "mb \<in> set (sMetrics svc)" for svc mb
    using built_binding_ok [OF ok _ that] b by auto
  have "registered_under ?regs raw = (\<Union>svc \<in> set (pgServices pg). (\<lambda>b. (MetricKey (sName svc) (mbName b), set (mbAttributes b))) `
      {b \<in> set (sMetrics svc). mbSource b = ''otlp'' \<and> mbMetric b = raw})"
    unfolding registered_under_concat registered_service
    by (intro SUP_cong [OF refl] image_cong [OF _ refl] Collect_cong) (use nn in blast)
  also have "\<dots> = {(MetricKey (sName svc) (mbName mb), set (mbAttributes mb)) | svc mb.
         svc \<in> set (pgServices pg) \<and> mb \<in> set (sMetrics svc) \<and> mbSource mb = ''otlp'' \<and> mbMetric mb = raw}"
    by blast
  finally have "registered_under ?regs raw = {(MetricKey (sName svc) (mbName mb), set (mbAttributes mb)) | svc mb.
         svc \<in> set (pgServices pg) \<and> mb \<in> set (sMetrics svc) \<and> mbSource mb = ''otlp'' \<and> mbMetric mb = raw}" .
  with routes bindings_of_ok(1) show ?thesis by simp
qed

theorem configured_routes_exact_witness:
  "\<exists>pg r. main_setup (example_world example_config) ''f'' False = Inr pg \<and> pgReceiver pg = Some r
    \<and> MetricKey ''api'' ''q'' \<in> obKey ` set (bindings_of r ''queue'') \<and> bindings_of r ''other'' = []"
proof -
  obtain pg r where pg: "main_setup (example_world example_config) ''f'' False = Inr pg" "pgReceiver pg = Some r"
    using example_sets_up by blast
  have ro: "range_order (wThresholds (example_world example_config))" by (simp add: example_world_def range_order_rev)
  have d: "\<forall>svc \<in> set (Services (apply_defaults example_config)). \<forall>m \<in> set (svMetrics svc). distinct (map fst (mbcAttributes m))"
    by (simp add: example_config_simps Let_def)
  have s: "\<exists>svc. pgServices pg = [svc] \<and> sName svc = ''api'' \<and>
      sMetrics svc = [\<lparr>mbName = ''q'', mbSource = ''otlp'', mbQuery = '''', mbMetric = ''queue'', mbAttributes = []\<rparr>]"
  proof (rule run_setup_Inr [OF main_setup_Inr [OF example_loads pg(1)]])
    assume "build_services (wEngine (example_world example_config)) (apply_flag False (apply_defaults example_config)) = Inr (pgServices pg)"
    then show ?thesis
      by (simp add: build_services_def build_service_def build_policy_def build_binding_def example_config_simps Let_def
          example_world_def) (drule sym, simp)
  qed
  note exact = configured_routes_exact [OF ro example_loads pg d]
  from s obtain svc b where sb: "svc \<in> set (pgServices pg)" "b \<in> set (sMetrics svc)" "mbSource b = ''otlp''"
    "mbMetric b = ''queue''" "sName svc = ''api''" "mbName b = ''q''" by auto
  have "(MetricKey (sName svc) (mbName b), set (mbAttributes b)) \<in> (\<lambda>b. (obKey b, set (obAttributes b))) ` set (bindings_of r ''queue'')"
    unfolding exact [THEN conjunct1] using sb by blast
  then have "MetricKey ''api'' ''q'' \<in> obKey ` set (bindings_of r ''queue'')" using sb by auto
  moreover have "bindings_of r ''other'' = []" using exact [of "''other''"] s by auto
  ultimately show ?thesis using pg by blast
qed

text \<open>C35. No Prometheus binding is left dangling: after startup every binding of a service either has the
  source \<^verbatim>\<open>otlp\<close> or names a connected Prometheus source, so that a poll never skips it for want
  of its source.\<close>

theorem prometheus_bindings_connected:
  assumes "range_order (wThresholds wd)" "load_config wd path = Inr cfg" "main_setup wd path flag = Inr pg"
    and "svc \<in> set (pgServices pg)" "b \<in> set (sMetrics svc)" "mbSource b \<noteq> ''otlp''"
  shows "\<exists>src. has_prefix (mbSource b) ''prometheus.''
    \<and> map_of (rcPromSources (pgReconciler pg)) (trim_prefix (mbSource b) ''prometheus.'') = Some src
    \<and> psName src = trim_prefix (mbSource b) ''prometheus.''"
proof (rule run_setup_Inr [OF main_setup_Inr [OF assms(2,3)]])
  fix promSources adp
  assume p: "connect_prometheus wd (mcPrometheus (Metrics (apply_flag flag cfg))) [] = Inr promSources"
    and bs: "build_services (wEngine wd) (apply_flag flag cfg) = Inr (pgServices pg)"
    and rc: "pgReconciler pg = new_reconciler (chosen_adapter adp) promSources (ReconcileInterval (apply_flag flag cfg))
      (DryRun (apply_flag flag cfg))"
  obtain n where n: "n \<in> pmName ` set (mcPrometheus (Metrics cfg))" "mbSource b = ''prometheus.'' @ n"
    using built_binding_ok(2) [OF loaded_config_ok [OF assms(1,2)] _ assms(4,5)] bs assms(6) by auto
  have c: "fst ` set promSources = pmName ` set (mcPrometheus (Metrics cfg))" "\<forall>(n, s) \<in> set promSources. psName s = n"
    using connect_prometheus_sources [OF p] by simp_all
  then obtain src where "map_of promSources n = Some src"
    using n(1) by (metis domIff dom_map_of_conv_image_fst not_None_eq)
  moreover from this have "psName src = n" using c(2) by (auto dest: map_of_SomeD)
  moreover have "trim_prefix (mbSource b) ''prometheus.'' = n" "has_prefix (mbSource b) ''prometheus.''"
    by (simp_all add: n(2) has_prefix_def trim_prefix_def)
  ultimately show ?thesis by (simp add: rc new_reconciler_def)
qed


text \<open>The example with its metric read from a Prometheus server instead.\<close>

definition example_prom_config :: config where
  "example_prom_config = example_config
     \<lparr>Metrics := \<lparr>mcOTLP = \<lparr>otlpEnabled = False, otlpGRPCPort = 0, otlpHTTPPort = 0\<rparr>,
        mcPrometheus = [\<lparr>pmName = ''p'', pmAddress = ''http'', pmBearerTokenFile = ''''\<rparr>]\<rparr>,
      Services := map (\<lambda>svc. svc\<lparr>svMetrics :=
        [\<lparr>mbcName = ''q'', mbcSource = ''prometheus.p'', mbcQuery = ''up'', mbcMetric = '''', mbcAttributes = []\<rparr>]\<rparr>)
        (Services example_config)\<rparr>"

definition example_prom_world :: "(rat, unit, unit) world" where
  "example_prom_world = (example_world example_prom_config)\<lparr>wNewClient := \<lambda>_ _. Inr (\<lambda>_ _. Inl ''no data'')\<rparr>"

theorem prometheus_bindings_connected_witness:
  "\<exists>pg src. main_setup example_prom_world ''f'' False = Inr pg
    \<and> map_of (rcPromSources (pgReconciler pg)) ''p'' = Some src \<and> psName src = ''p''"
proof -
  let ?cfg = "apply_defaults example_prom_config"
  have ro: "range_order (wThresholds example_prom_world)"
    by (simp add: example_prom_world_def example_world_def range_order_rev)
  have sp: "\<not> is_space (CHR ''u'')" by (simp add: is_space_def)
  have "config_ok (\<lambda>_. None) example_engine ?cfg"
    by (simp add: example_prom_config_def example_config_simps config_ok_def adapter_config_ok_def prometheus_ok_def service_config_ok_def
      bindings_ok_def source_ok_def policy_config_ok_def window_config_ok_def threshold_config_ok_def time_units Let_def sp)
  then have v: "validate rev (\<lambda>_. None) example_engine ?cfg = None"
    using validate_config_ok [OF range_order_rev] by blast
  then have l: "load_config example_prom_world ''f'' = Inr ?cfg"
    by (simp add: load_config_def load_from_env_or_file_def load_file_def example_prom_world_def example_world_def parse_def Let_def trim_space_def)
  have parts: "mcPrometheus (Metrics ?cfg) = [\<lparr>pmName = ''p'', pmAddress = ''http'', pmBearerTokenFile = ''''\<rparr>]"
    "new_adapter load (Adapter ?cfg) = Inr MemoryAdapter" "\<not> otlpEnabled (mcOTLP (Metrics ?cfg))" for load
    by (simp_all add: example_prom_config_def example_config_simps new_adapter_def Let_def)
  obtain svc b where bs: "build_services example_engine ?cfg = Inr [svc]" "b \<in> set (sMetrics svc)" "mbSource b = ''prometheus.p''"
    by (simp add: build_services_def build_service_def build_policy_def build_binding_def example_prom_config_def example_config_simps Let_def)
  then obtain pg where pg: "main_setup example_prom_world ''f'' False = Inr pg" "pgServices pg = [svc]"
    unfolding main_setup_def l
    by (simp add: run_setup_def Let_def start_otlp_def example_prom_world_def example_world_def parts new_prometheus_source_def)
  from prometheus_bindings_connected [OF ro l pg(1), of svc b] bs pg show ?thesis
    by (auto simp: trim_prefix_def has_prefix_def)
qed

end
