(* ===== verification/Lifecycle.thy ===== *)
theory Lifecycle
  imports Startup
begin

text \<open>
  The life of the process: how \<^verbatim>\<open>run\<close> (\<^verbatim>\<open>cmd/ninjascale/main.go\<close>) starts what serves and defers
  what stops it, the loop of \<^verbatim>\<open>Reconciler.Run\<close> with its ticker and its context, the signal handler,
  and the ways out. Starting and stopping a server is a call to the gRPC and HTTP libraries, so
  the model keeps the calls, in order, as a list of effects; a goroutine that serves is the effect
  that starts it. The ticker's channel and the signal channel hold one element each. A tick is one
  step; its interleaving with requests is the subject of the theory \<^verbatim>\<open>System\<close>. A panic runs the
  deferred calls and exits with status 2.
\<close>

section \<open>Calls to the outside\<close>

datatype effect =
    NotifySignals
  | GoSignalHandler
  | NewGRPCServer
  | ListenGRPC string
  | GoServeGRPC string
  | GoServeOTLPHTTP string
  | GoServeHTTP string
  | ShutdownHTTP string
  | GracefulStopGRPC
  | ShutdownOTLPHTTP string
  | CancelContext

section \<open>The OTLP receiver\<close>

text \<open>The server pointers of \<^verbatim>\<open>OTLPReceiver\<close>: whether \<^verbatim>\<open>grpcServer\<close> is set, and the address of \<^verbatim>\<open>httpServer\<close>.\<close>

record receiver_servers =
  grpcServer :: bool
  httpServer :: "string option"

definition no_servers :: receiver_servers where
  "no_servers = \<lparr>grpcServer = False, httpServer = None\<rparr>"

definition receiver_start ::
  "(string \<Rightarrow> string option) \<Rightarrow> otlp_receiver \<Rightarrow> receiver_servers \<Rightarrow> startup_error option \<times> receiver_servers \<times> effect list" where
  "receiver_start listen r s =
     (let s1 = s\<lparr>grpcServer := True\<rparr> in
      case listen (grpcAddr r) of
        Some e \<Rightarrow> (Some (GrpcListen e), s1, [NewGRPCServer, ListenGRPC (grpcAddr r)])
      | None \<Rightarrow> (None, s1\<lparr>httpServer := Some (httpAddr r)\<rparr>,
          [NewGRPCServer, ListenGRPC (grpcAddr r), GoServeGRPC (grpcAddr r), GoServeOTLPHTTP (httpAddr r)]))"

definition receiver_stop :: "receiver_servers \<Rightarrow> effect list" where
  "receiver_stop s =
     (if grpcServer s then [GracefulStopGRPC] else [])
     @ (case httpServer s of Some addr \<Rightarrow> [ShutdownOTLPHTTP addr] | None \<Rightarrow> [])"

section \<open>The HTTP server\<close>

text \<open>\<^verbatim>\<open>server.Start\<close> and \<^verbatim>\<open>server.Stop\<close>; the argument is \<^verbatim>\<open>server.Addr\<close>.\<close>

definition server_start :: "string \<Rightarrow> effect list" where
  "server_start addr = [GoServeHTTP addr]"

definition server_stop :: "string \<Rightarrow> effect list" where
  "server_stop addr = [ShutdownHTTP addr]"

section \<open>Deferred calls\<close>

datatype deferred = DeferCancel | DeferReceiverStop receiver_servers | DeferServerStop string

fun run_deferred1 :: "deferred \<Rightarrow> effect list" where
  "run_deferred1 DeferCancel = [CancelContext]"
| "run_deferred1 (DeferReceiverStop s) = receiver_stop s"
| "run_deferred1 (DeferServerStop addr) = server_stop addr"

text \<open>The call deferred last is the head of the list and runs first.\<close>

definition run_deferred :: "deferred list \<Rightarrow> effect list" where
  "run_deferred ds = concat (map run_deferred1 ds)"

section \<open>Starting\<close>

text \<open>The block of \<^verbatim>\<open>run\<close> that starts the receiver, with its deferred call.\<close>

definition start_otlp_effects ::
  "(string \<Rightarrow> string option) \<Rightarrow> config \<Rightarrow> 'p service list
   \<Rightarrow> (startup_error + otlp_receiver option) \<times> effect list \<times> deferred list" where
  "start_otlp_effects listen cfg services =
     (if \<not> otlpEnabled (mcOTLP (Metrics cfg)) then (Inr None, [], [])
      else
        let receiver = foldl register_service
              (new_otlp_receiver (otlpGRPCPort (mcOTLP (Metrics cfg))) (otlpHTTPPort (mcOTLP (Metrics cfg)))) services in
        case receiver_start listen receiver no_servers of
          (Some e, _, effs) \<Rightarrow> (Inl e, effs, [])
        | (None, servers, effs) \<Rightarrow> (Inr (Some receiver), effs, [DeferReceiverStop servers]))"

text \<open>\<^verbatim>\<open>run\<close> up to the loop, with the effects so far and the deferred calls.\<close>

definition run_start ::
  "('p, 'a, 'r) world \<Rightarrow> config \<Rightarrow> (startup_error + ('p, 'a) program) \<times> effect list \<times> deferred list" where
  "run_start wd cfg =
     (let effs = [NotifySignals, GoSignalHandler]; ds = [DeferCancel];
          store = new_metric_store [WithRetention (MetricRetention cfg)] in
      case connect_prometheus wd (mcPrometheus (Metrics cfg)) [] of
        Inl e \<Rightarrow> (Inl e, effs, ds)
      | Inr promSources \<Rightarrow>
          (case new_adapter (wLoadAWS wd) (Adapter cfg) of
             Inl e \<Rightarrow> (Inl (AdapterError e), effs, ds)
           | Inr adp \<Rightarrow>
               (case build_services (wEngine wd) cfg of
                  Inl e \<Rightarrow> (Inl (ConfigError e), effs, ds)
                | Inr services \<Rightarrow>
                    (case start_otlp_effects (wListen wd) cfg services of
                       (Inl e, effs1, ds1) \<Rightarrow> (Inl e, effs @ effs1, ds1 @ ds)
                     | (Inr receiver, effs1, ds1) \<Rightarrow>
                         let addr = srvAddress (Server cfg) in
                         (Inr \<lparr>pgServices = services, pgStore = store, pgReceiver = receiver,
                            pgReconciler = new_reconciler (chosen_adapter adp) promSources (ReconcileInterval cfg) (DryRun cfg),
                            pgServer = new_server, pgServerAddress = addr\<rparr>,
                          effs @ effs1 @ server_start addr, DeferServerStop addr # ds1 @ ds)))))"

section \<open>The loop\<close>

datatype process_status = Entering | Looping | Exited nat

type_synonym ('p, 'a) program_state = "'p service list \<times> ('a \<times> memory_state) run_state"

text \<open>\<open>pcSignal\<close> and \<open>pcTicker\<close> are the buffers of the two channels, \<open>pcHandler\<close> tells whether the
  goroutine that waits for a signal still does, \<open>pcDone\<close> whether the context is cancelled.\<close>

record ('p, 'a) process =
  pcStatus :: process_status
  pcSystem :: "('p, 'a) program_state"
  pcSignal :: bool
  pcHandler :: bool
  pcDone :: bool
  pcTicker :: bool
  pcEffects :: "effect list"
  pcDeferred :: "deferred list"

text \<open>\<^verbatim>\<open>ctx.Err()\<close> of a context made by \<^verbatim>\<open>WithCancel\<close> from the background context is \<^verbatim>\<open>Canceled\<close> when it is
  done; \<^verbatim>\<open>run\<close> turns that error into nil, and \<^verbatim>\<open>main\<close> exits with status 1 for any other.\<close>

datatype context_error = Canceled | DeadlineExceeded

definition exit_status :: "context_error option \<Rightarrow> nat" where
  "exit_status err = (case err of None \<Rightarrow> 0 | Some e \<Rightarrow> if e \<noteq> Canceled then 1 else 0)"

definition leave :: "nat \<Rightarrow> ('p, 'a) process \<Rightarrow> ('p, 'a) process" where
  "leave status p =
     p\<lparr>pcStatus := Exited status, pcEffects := pcEffects p @ run_deferred (pcDeferred p), pcDeferred := []\<rparr>"

definition loop_tick ::
  "('a \<times> memory_state) reconciler \<Rightarrow> 'p run_env \<Rightarrow> ('p, 'a) process \<Rightarrow> ('p, 'a) process" where
  "loop_tick rc env p =
     (case tick rc env (pcSystem p) of
        None \<Rightarrow> leave 2 p
      | Some (_, system) \<Rightarrow> p\<lparr>pcStatus := Looping, pcSystem := system\<rparr>)"

text \<open>The head of \<^verbatim>\<open>Run\<close>: create the ticker, tick at once.\<close>

definition enter_loop ::
  "('a \<times> memory_state) reconciler \<Rightarrow> 'p run_env \<Rightarrow> ('p, 'a) process \<Rightarrow> ('p, 'a) process" where
  "enter_loop rc env p = (if rcInterval rc \<le> 0 then leave 2 p else loop_tick rc env p)"

datatype process_event = Enter | TimerFires | TickReceived | SignalArrives | SignalHandled | LoopReturns | Outside

text \<open>The two arms of the \<^verbatim>\<open>select\<close> are the rules \<open>tick\<close> and \<open>return\<close>; when both are ready Go takes either.\<close>

inductive process_step ::
  "('p, 'a) program \<Rightarrow> 'p run_env \<Rightarrow> ('p, 'a) process \<Rightarrow> process_event \<Rightarrow> ('p, 'a) process \<Rightarrow> bool"
  for pg :: "('p, 'a) program" and env :: "'p run_env" where
  enter: "pcStatus p = Entering \<Longrightarrow> process_step pg env p Enter (enter_loop (pgReconciler pg) env p)"
| fire: "pcStatus p = Looping \<Longrightarrow> process_step pg env p TimerFires (p\<lparr>pcTicker := True\<rparr>)"
| tick: "pcStatus p = Looping \<Longrightarrow> pcTicker p \<Longrightarrow>
     process_step pg env p TickReceived (loop_tick (pgReconciler pg) env (p\<lparr>pcTicker := False\<rparr>))"
| signal: "pcStatus p \<in> {Entering, Looping} \<Longrightarrow> process_step pg env p SignalArrives (p\<lparr>pcSignal := True\<rparr>)"
| handle: "pcStatus p \<in> {Entering, Looping} \<Longrightarrow> pcSignal p \<Longrightarrow> pcHandler p \<Longrightarrow>
     process_step pg env p SignalHandled (p\<lparr>pcSignal := False, pcHandler := False, pcDone := True\<rparr>)"
| return: "pcStatus p = Looping \<Longrightarrow> pcDone p \<Longrightarrow>
     process_step pg env p LoopReturns (leave (exit_status (Some Canceled)) p)"
| request: "pcStatus p \<in> {Entering, Looping} \<Longrightarrow> pgReceiver pg = Some r \<Longrightarrow> pcSystem p = (svcs, st) \<Longrightarrow>
     process_request (envOrder env) (envClock env) fmt r receivedAt req (rsReads st, rsStore st) = (k, store) \<Longrightarrow>
     process_step pg env p Outside (p\<lparr>pcSystem := (svcs, st\<lparr>rsReads := k, rsStore := store\<rparr>)\<rparr>)"
| cluster: "pcStatus p \<in> {Entering, Looping} \<Longrightarrow> pcSystem p = (svcs, st) \<Longrightarrow>
     process_step pg env p Outside (p\<lparr>pcSystem := (svcs, st\<lparr>rsPlatform := a\<rparr>)\<rparr>)"

inductive process_run ::
  "('p, 'a) program \<Rightarrow> 'p run_env \<Rightarrow> ('p, 'a) process \<Rightarrow> process_event list \<Rightarrow> ('p, 'a) process \<Rightarrow> bool"
  for pg :: "('p, 'a) program" and env :: "'p run_env" and p0 where
  start: "process_run pg env p0 [] p0"
| step: "process_run pg env p0 es p \<Longrightarrow> process_step pg env p e p' \<Longrightarrow> process_run pg env p0 (es @ [e]) p'"

definition launch :: "('p, 'a) program \<Rightarrow> effect list \<Rightarrow> deferred list \<Rightarrow> 'a \<Rightarrow> ('p, 'a) process" where
  "launch pg effs ds a =
     \<lparr>pcStatus = Entering, pcSystem = (pgServices pg, initial_state (pgStore pg) (a, new_memory_adapter)),
      pcSignal = False, pcHandler = True, pcDone = False, pcTicker = False, pcEffects = effs, pcDeferred = ds\<rparr>"

text \<open>\<^verbatim>\<open>main\<close>: a failure before the loop runs what was deferred and exits with status 1.\<close>

datatype ('p, 'a) launched = StartFailed nat startup_error "effect list" | Started "('p, 'a) program" "('p, 'a) process"

definition main_launch :: "('p, 'a, 'r) world \<Rightarrow> string \<Rightarrow> bool \<Rightarrow> 'a \<Rightarrow> ('p, 'a) launched" where
  "main_launch wd configPath dryRun a =
     (case load_config wd configPath of
        Inl e \<Rightarrow> StartFailed 1 e []
      | Inr cfg \<Rightarrow>
          (case run_start wd (apply_flag dryRun cfg) of
             (Inl e, effs, ds) \<Rightarrow> StartFailed 1 e (effs @ run_deferred ds)
           | (Inr pg, effs, ds) \<Rightarrow> Started pg (launch pg effs ds a)))"

section \<open>Starting, with and without effects\<close>

lemma start_otlp_fst: "fst (start_otlp_effects listen cfg svcs) = start_otlp listen cfg svcs"
  by (simp add: start_otlp_effects_def start_otlp_def start_receiver_def receiver_start_def Let_def split: option.splits)

lemma run_start_fst: "fst (run_start wd cfg) = run_setup wd cfg"
  unfolding run_start_def run_setup_def Let_def start_otlp_fst [symmetric]
  by (auto split: sum.splits prod.splits)

lemma main_launch_started:
  "main_launch wd path flag a = Started pg p \<Longrightarrow> main_setup wd path flag = Inr pg
    \<and> pcSystem p = (pgServices pg, initial_state (pgStore pg) (a, new_memory_adapter))"
  using run_start_fst [of wd]
  by (auto simp: main_launch_def main_setup_def launch_def split: sum.splits prod.splits) (metis fst_conv)+

definition receiver_opening :: "otlp_receiver option \<Rightarrow> effect list" where
  "receiver_opening r = (case r of None \<Rightarrow> []
     | Some r \<Rightarrow> [NewGRPCServer, ListenGRPC (grpcAddr r), GoServeGRPC (grpcAddr r), GoServeOTLPHTTP (httpAddr r)])"

definition receiver_closing :: "otlp_receiver option \<Rightarrow> effect list" where
  "receiver_closing r = (case r of None \<Rightarrow> [] | Some r \<Rightarrow> [GracefulStopGRPC, ShutdownOTLPHTTP (httpAddr r)])"

definition serves :: "effect \<Rightarrow> bool" where
  "serves e \<longleftrightarrow> (case e of GoServeGRPC _ \<Rightarrow> True | GoServeOTLPHTTP _ \<Rightarrow> True | GoServeHTTP _ \<Rightarrow> True | _ \<Rightarrow> False)"

lemma start_otlp_effects_cases:
  assumes "start_otlp_effects listen cfg svcs = (res, effs, ds)"
  shows "case res of
      Inl e \<Rightarrow> ds = [] \<and> (\<forall>x \<in> set effs. \<not> serves x)
    | Inr r \<Rightarrow> effs = receiver_opening r \<and> run_deferred ds = receiver_closing r"
  using assms
  by (auto simp: start_otlp_effects_def receiver_start_def no_servers_def receiver_opening_def receiver_closing_def
      run_deferred_def receiver_stop_def serves_def Let_def split: if_splits option.splits)

lemma run_start_Inl:
  assumes "run_start wd cfg = (Inl e, effs, ds)"
  shows "ds = [DeferCancel]" "\<forall>x \<in> set effs. \<not> serves x"
proof -
  have "ds = [DeferCancel] \<and> (\<forall>x \<in> set effs. \<not> serves x)"
    using assms start_otlp_effects_cases [of "wListen wd" cfg]
    by (fastforce simp: run_start_def Let_def serves_def split: sum.splits prod.splits)
  then show "ds = [DeferCancel]" "\<forall>x \<in> set effs. \<not> serves x" by blast+
qed

lemma run_start_Inr:
  fixes pg :: "('p, 'a) program"
  assumes "run_start wd cfg = (Inr pg, effs, ds)"
  shows "effs = [NotifySignals, GoSignalHandler] @ receiver_opening (pgReceiver pg) @ [GoServeHTTP (pgServerAddress pg)]"
    "run_deferred ds = ShutdownHTTP (pgServerAddress pg) # receiver_closing (pgReceiver pg) @ [CancelContext]"
proof -
  from assms obtain svcs :: "'p service list" and effs1 ds1 where o: "start_otlp_effects (wListen wd) cfg svcs = (Inr (pgReceiver pg), effs1, ds1)"
    and e: "effs = [NotifySignals, GoSignalHandler] @ effs1 @ server_start (pgServerAddress pg)"
    and d: "ds = DeferServerStop (pgServerAddress pg) # ds1 @ [DeferCancel]"
    by (auto simp: run_start_def Let_def split: sum.splits prod.splits)
  from start_otlp_effects_cases [OF o] e d
  show "effs = [NotifySignals, GoSignalHandler] @ receiver_opening (pgReceiver pg) @ [GoServeHTTP (pgServerAddress pg)]"
    "run_deferred ds = ShutdownHTTP (pgServerAddress pg) # receiver_closing (pgReceiver pg) @ [CancelContext]"
    by (simp_all add: server_start_def server_stop_def run_deferred_def)
qed

section \<open>Steps\<close>

lemma loop_tick_cases:
  obtains (panic) "tick rc env (pcSystem p) = None" "loop_tick rc env p = leave 2 p"
  | (ticked) outs sys where "tick rc env (pcSystem p) = Some (outs, sys)"
      "loop_tick rc env p = p\<lparr>pcStatus := Looping, pcSystem := sys\<rparr>"
  by (cases "tick rc env (pcSystem p)") (auto simp: loop_tick_def)

lemma leave_simps [simp]:
  "pcStatus (leave c p) = Exited c" "pcSystem (leave c p) = pcSystem p"
  "pcSignal (leave c p) = pcSignal p" "pcHandler (leave c p) = pcHandler p" "pcDone (leave c p) = pcDone p"
  "pcTicker (leave c p) = pcTicker p"
  "pcEffects (leave c p) = pcEffects p @ run_deferred (pcDeferred p)" "pcDeferred (leave c p) = []"
  by (simp_all add: leave_def)

lemma loop_tick_frame [simp]:
  "pcSignal (loop_tick rc env p) = pcSignal p" "pcHandler (loop_tick rc env p) = pcHandler p"
  "pcDone (loop_tick rc env p) = pcDone p" "pcTicker (loop_tick rc env p) = pcTicker p"
  by (cases rule: loop_tick_cases [of rc env p]; simp)+

lemma enter_loop_frame [simp]:
  "pcSignal (enter_loop rc env p) = pcSignal p" "pcHandler (enter_loop rc env p) = pcHandler p"
  "pcDone (enter_loop rc env p) = pcDone p" "pcTicker (enter_loop rc env p) = pcTicker p"
  by (simp_all add: enter_loop_def)

lemma exit_canceled [simp]: "exit_status (Some Canceled) = 0"
  by (simp add: exit_status_def)

lemma process_step_alive: "process_step pg env p e p' \<Longrightarrow> pcStatus p \<in> {Entering, Looping}"
  by (cases rule: process_step.cases) auto

text \<open>Effects happen before the loop and on the way out only.\<close>

definition effects_inv :: "effect list \<Rightarrow> deferred list \<Rightarrow> ('p, 'a) process \<Rightarrow> bool" where
  "effects_inv effs ds p \<longleftrightarrow> (case pcStatus p of
     Exited c \<Rightarrow> pcEffects p = effs @ run_deferred ds \<and> pcDeferred p = []
   | _ \<Rightarrow> pcEffects p = effs \<and> pcDeferred p = ds)"

lemma effects_inv_alive: "pcStatus p \<in> {Entering, Looping} \<Longrightarrow>
   effects_inv effs ds p \<longleftrightarrow> pcEffects p = effs \<and> pcDeferred p = ds"
  by (auto simp: effects_inv_def)

lemma effects_inv_leave: "pcEffects p = effs \<Longrightarrow> pcDeferred p = ds \<Longrightarrow> effects_inv effs ds (leave c p)"
  by (simp add: effects_inv_def)

lemma effects_inv_tick: "pcEffects p = effs \<Longrightarrow> pcDeferred p = ds \<Longrightarrow> effects_inv effs ds (loop_tick rc env p)"
  by (cases rule: loop_tick_cases [of rc env p]) (simp_all add: effects_inv_leave, simp add: effects_inv_def)

lemma process_run_effects:
  assumes "process_run pg env (launch pg effs ds a) es p"
  shows "effects_inv effs ds p"
  using assms
proof (induction rule: process_run.induct)
  case start
  then show ?case by (simp add: effects_inv_def launch_def)
next
  case (step es p e p')
  have p: "pcEffects p = effs" "pcDeferred p = ds"
    using step.IH process_step_alive [OF step.hyps(2)] by (auto simp: effects_inv_alive)
  from step.hyps(2) show ?case
  proof (cases rule: process_step.cases)
    case enter
    then show ?thesis using p by (simp add: enter_loop_def effects_inv_leave effects_inv_tick)
  next
    case tick
    then show ?thesis using p by (simp add: effects_inv_tick)
  next
    case return
    then show ?thesis using p by (simp add: effects_inv_leave)
  qed (use p in \<open>auto simp: effects_inv_alive\<close>)
qed

section \<open>Signals and the ticker\<close>

definition signal_inv :: "process_event list \<Rightarrow> ('p, 'a) process \<Rightarrow> bool" where
  "signal_inv es p \<longleftrightarrow> (pcHandler p \<or> pcDone p) \<and> (SignalArrives \<in> set es \<longrightarrow> pcSignal p \<or> pcDone p)
     \<and> (pcSignal p \<or> pcDone p \<longrightarrow> SignalArrives \<in> set es) \<and> (pcStatus p = Exited 0 \<longrightarrow> pcDone p)"

lemma process_run_signal:
  assumes "process_run pg env (launch pg effs ds a) es p"
  shows "signal_inv es p"
  using assms
proof (induction rule: process_run.induct)
  case start
  then show ?case by (simp add: signal_inv_def launch_def)
next
  case (step es p e p')
  from step.hyps(2) show ?case
  proof (cases rule: process_step.cases)
    case enter
    have "pcStatus (enter_loop (pgReconciler pg) env p) \<noteq> Exited 0"
      by (cases rule: loop_tick_cases [of "pgReconciler pg" env p]) (auto simp: enter_loop_def)
    with enter step.IH show ?thesis by (simp add: signal_inv_def)
  next
    case tick
    have "pcStatus (loop_tick (pgReconciler pg) env (p\<lparr>pcTicker := False\<rparr>)) \<noteq> Exited 0"
      by (cases rule: loop_tick_cases [of "pgReconciler pg" env "p\<lparr>pcTicker := False\<rparr>"]) auto
    with tick step.IH show ?thesis by (simp add: signal_inv_def)
  qed (use step.IH in \<open>auto simp: signal_inv_def\<close>)
qed

lemma process_run_ticker:
  assumes "process_run pg env p0 es p"
  shows "count_list es TickReceived + (if pcTicker p then 1 else 0) \<le> count_list es TimerFires + (if pcTicker p0 then 1 else 0)"
  using assms
proof (induction rule: process_run.induct)
  case (step es p e p')
  from step.hyps(2) show ?case
    by (cases rule: process_step.cases) (use step.IH in \<open>auto split: if_splits\<close>)
qed simp

lemma process_run_trans:
  assumes "process_run pg env p0 es p" "process_run pg env p es' p'"
  shows "process_run pg env p0 (es @ es') p'"
  using assms(2) assms(1)
proof (induction rule: process_run.induct)
  case (step es1 p1 e p2)
  then have "process_run pg env p0 ((es @ es1) @ [e]) p2" by (blast intro: process_run.step)
  then show ?case by simp
qed simp

lemma process_run_step: "process_step pg env p e p' \<Longrightarrow> process_run pg env p [e] p'"
  using process_run.step [OF process_run.start] by fastforce

section \<open>The loop\<close>

lemma ticks_snoc:
  "ticks rc env (Suc n) ss = do { (svcs, st) \<leftarrow> ticks rc env n ss; (_, svcs', st') \<leftarrow> tick rc env (svcs, st); Some (svcs', st') }"
proof (induction n arbitrary: ss)
  case 0
  then show ?case by (cases ss) (simp split: prod.splits)
next
  case (Suc n)
  have "ticks rc env (Suc (Suc n)) ss = do { (_, svcs, st) \<leftarrow> tick rc env ss; ticks rc env (Suc n) (svcs, st) }" by simp
  also have "\<dots> = do { (_, svcs, st) \<leftarrow> tick rc env ss; (svcs, st) \<leftarrow> ticks rc env n (svcs, st);
      (_, svcs', st') \<leftarrow> tick rc env (svcs, st); Some (svcs', st') }"
    by (simp only: Suc.IH)
  also have "\<dots> = do { (svcs, st) \<leftarrow> ticks rc env (Suc n) ss; (_, svcs', st') \<leftarrow> tick rc env (svcs, st); Some (svcs', st') }"
    by (cases "tick rc env ss") auto
  finally show ?case .
qed

lemma ticks_Suc_Some: "ticks rc env n ss = Some sys \<Longrightarrow> ticks rc env (Suc n) ss = map_option snd (tick rc env sys)"
  unfolding ticks_snoc by (cases sys; cases "tick rc env sys") (auto split: prod.splits)

text \<open>What a run without outside events has computed, by the status it is in.\<close>

definition loop_inv ::
  "('p, 'a) program \<Rightarrow> 'p run_env \<Rightarrow> ('p, 'a) program_state \<Rightarrow> process_event list \<Rightarrow> ('p, 'a) process \<Rightarrow> bool" where
  "loop_inv pg env sys es p \<longleftrightarrow>
     (let n = count_list es TickReceived in
      case pcStatus p of
        Entering \<Rightarrow> n = 0 \<and> pcSystem p = sys
      | Looping \<Rightarrow> run_loop (pgReconciler pg) env n sys = Some (pcSystem p)
      | Exited c \<Rightarrow> c = 0 \<and> run_loop (pgReconciler pg) env n sys = Some (pcSystem p)
          \<or> c = 2 \<and> run_loop (pgReconciler pg) env n sys = None)"

lemma enter_loop_run:
  "pcSystem p = sys \<Longrightarrow>
   case run_loop rc env 0 sys of
     None \<Rightarrow> pcStatus (enter_loop rc env p) = Exited 2
   | Some sys' \<Rightarrow> pcStatus (enter_loop rc env p) = Looping \<and> pcSystem (enter_loop rc env p) = sys'"
  by (cases "tick rc env sys") (auto simp: enter_loop_def run_loop_def loop_tick_def)

lemma loop_tick_run:
  "run_loop rc env n sys = Some (pcSystem p) \<Longrightarrow>
   case run_loop rc env (Suc n) sys of
     None \<Rightarrow> pcStatus (loop_tick rc env p) = Exited 2
   | Some sys' \<Rightarrow> pcStatus (loop_tick rc env p) = Looping \<and> pcSystem (loop_tick rc env p) = sys'"
  using ticks_Suc_Some [of rc env "Suc n" sys "pcSystem p"]
  by (cases "tick rc env (pcSystem p)") (auto simp: run_loop_def loop_tick_def simp del: ticks.simps split: if_splits)

lemma process_run_loop:
  assumes "process_run pg env (launch pg effs ds a) es p" "Outside \<notin> set es"
  shows "loop_inv pg env (pgServices pg, initial_state (pgStore pg) (a, new_memory_adapter)) es p"
  using assms
proof (induction rule: process_run.induct)
  case start
  then show ?case by (simp add: loop_inv_def launch_def)
next
  case (step es p e p')
  let ?sys = "(pgServices pg, initial_state (pgStore pg) (a, new_memory_adapter))"
  have inv: "loop_inv pg env ?sys es p" and e: "e \<noteq> Outside" using step by auto
  from step.hyps(2) show ?case
  proof (cases rule: process_step.cases)
    case enter
    with inv have s: "pcSystem p = ?sys" "count_list es TickReceived = 0" by (auto simp: loop_inv_def Let_def)
    from enter_loop_run [OF s(1), of "pgReconciler pg" env] show ?thesis
      using enter s(2) by (auto simp: loop_inv_def split: option.splits)
  next
    case tick
    with inv have "run_loop (pgReconciler pg) env (count_list es TickReceived) ?sys = Some (pcSystem (p\<lparr>pcTicker := False\<rparr>))"
      by (simp add: loop_inv_def)
    from loop_tick_run [OF this] show ?thesis
      using tick by (auto simp: loop_inv_def split: option.splits)
  qed (use inv e in \<open>auto simp: loop_inv_def Let_def\<close>)
qed

lemma quiet_run_exists:
  assumes "run_loop (pgReconciler pg) env n (pgServices pg, initial_state (pgStore pg) (a, new_memory_adapter)) = Some sys"
  shows "\<exists>es p. process_run pg env (launch pg effs ds a) es p \<and> Outside \<notin> set es \<and> count_list es TickReceived = n
    \<and> pcStatus p = Looping \<and> pcSystem p = sys \<and> pcHandler p"
  using assms
proof (induction n arbitrary: sys)
  case 0
  let ?p = "launch pg effs ds a"
  have "process_run pg env ?p [Enter] (enter_loop (pgReconciler pg) env ?p)"
    by (rule process_run_step, rule process_step.enter) (simp add: launch_def)
  moreover have "pcStatus (enter_loop (pgReconciler pg) env ?p) = Looping \<and> pcSystem (enter_loop (pgReconciler pg) env ?p) = sys"
    using enter_loop_run [of ?p _ "pgReconciler pg" env, OF refl] 0 by (simp add: launch_def)
  ultimately show ?case
    by (intro exI [of _ "[Enter]"] exI [of _ "enter_loop (pgReconciler pg) env ?p"]) (simp add: launch_def)
next
  case (Suc n)
  let ?sys = "(pgServices pg, initial_state (pgStore pg) (a, new_memory_adapter))"
  obtain sys1 where one: "run_loop (pgReconciler pg) env n ?sys = Some sys1"
    using Suc.prems ticks_snoc [of "pgReconciler pg" env "Suc n" ?sys]
    by (auto simp: run_loop_def simp del: ticks.simps split: if_splits bind_splits)
  from Suc.IH [OF this] obtain es p where p: "process_run pg env (launch pg effs ds a) es p" "Outside \<notin> set es"
    "count_list es TickReceived = n" "pcStatus p = Looping" "pcSystem p = sys1" "pcHandler p" by blast
  let ?p1 = "p\<lparr>pcTicker := True\<rparr>"
  let ?p2 = "loop_tick (pgReconciler pg) env (?p1\<lparr>pcTicker := False\<rparr>)"
  have f: "process_step pg env p TimerFires ?p1" using p(4) by (rule process_step.fire)
  have t: "process_step pg env ?p1 TickReceived ?p2" by (rule process_step.tick) (simp_all add: p(4))
  have "process_run pg env (launch pg effs ds a) ((es @ [TimerFires]) @ [TickReceived]) ?p2"
    by (rule process_run.step [OF process_run.step [OF p(1) f] t])
  moreover have "pcStatus ?p2 = Looping \<and> pcSystem ?p2 = sys"
    using loop_tick_run [of "pgReconciler pg" env n ?sys "?p1\<lparr>pcTicker := False\<rparr>"] one p(5) Suc.prems by simp
  ultimately show ?case
    using p by (intro exI [of _ "(es @ [TimerFires]) @ [TickReceived]"] exI [of _ ?p2]) simp
qed

text \<open>From the loop the process can leave after a signal, without another tick.\<close>

lemma loop_can_leave:
  assumes "pcStatus p = Looping" "pcDone p \<or> pcSignal p \<and> pcHandler p"
  shows "\<exists>es p'. length es \<le> 2 \<and> TickReceived \<notin> set es \<and> Outside \<notin> set es
    \<and> process_run pg env p es p' \<and> pcStatus p' = Exited 0 \<and> pcSystem p' = pcSystem p"
proof (cases "pcDone p")
  case True
  from process_run_step [OF process_step.return [OF assms(1) True], of pg env] show ?thesis
    by (intro exI [of _ "[LoopReturns]"] exI [of _ "leave (exit_status (Some Canceled)) p"]) simp
next
  case False
  let ?p = "p\<lparr>pcSignal := False, pcHandler := False, pcDone := True\<rparr>"
  have h: "process_step pg env p SignalHandled ?p" by (rule process_step.handle) (use assms False in auto)
  have r: "process_step pg env ?p LoopReturns (leave (exit_status (Some Canceled)) ?p)"
    by (rule process_step.return) (simp_all add: assms(1))
  from process_run.step [OF process_run_step [OF h] r] show ?thesis
    by (intro exI [of _ "[SignalHandled] @ [LoopReturns]"] exI [of _ "leave (exit_status (Some Canceled)) ?p"]) simp
qed

lemma quiet_exit_exists:
  assumes "main_run env n a pg = Some sys"
  shows "\<exists>es p. process_run pg env (launch pg effs ds a) es p \<and> Outside \<notin> set es \<and> count_list es TickReceived = n
      \<and> SignalArrives \<in> set es \<and> pcStatus p = Exited 0 \<and> pcSystem p = sys"
proof -
  from quiet_run_exists [OF assms [unfolded main_run_def], of effs ds] obtain es p where
    p: "process_run pg env (launch pg effs ds a) es p" "Outside \<notin> set es" "count_list es TickReceived = n"
      "pcStatus p = Looping" "pcSystem p = sys" "pcHandler p" by blast
  let ?p = "p\<lparr>pcSignal := True\<rparr>"
  have s: "process_step pg env p SignalArrives ?p" by (rule process_step.signal) (simp add: p)
  from loop_can_leave [of ?p pg env] p obtain es1 p1 where
    q: "TickReceived \<notin> set es1" "Outside \<notin> set es1" "process_run pg env ?p es1 p1" "pcStatus p1 = Exited 0" "pcSystem p1 = sys"
    by auto
  from process_run_trans [OF process_run.step [OF p(1) s] q(3)] p q show ?thesis
    by (intro exI [of _ "(es @ [SignalArrives]) @ es1"] exI [of _ p1]) (simp add: count_notin)
qed

section \<open>The process within the system\<close>

lemma loop_tick_sys:
  "\<exists>es. sys_run rc env (pcSystem p) es (pcSystem (loop_tick rc env p))"
proof (cases rule: loop_tick_cases [of rc env p])
  case panic
  then show ?thesis by (auto intro: sys_run.start)
next
  case (ticked outs sys)
  with tick_steps [of rc env "fst (pcSystem p)" "snd (pcSystem p)" outs "fst sys" "snd sys"] show ?thesis by simp
qed

lemma process_step_sys:
  assumes "process_step pg env p e p'"
  shows "\<exists>es. sys_run (pgReconciler pg) env (pcSystem p) es (pcSystem p')"
  using assms
proof (cases rule: process_step.cases)
  case enter
  then show ?thesis using loop_tick_sys [of "pgReconciler pg" env p] by (auto simp: enter_loop_def intro: sys_run.start)
next
  case tick
  then show ?thesis using loop_tick_sys [of "pgReconciler pg" env "p\<lparr>pcTicker := False\<rparr>"] by simp
next
  case (request r svcs st fmt receivedAt req k store)
  from sys_run_step [OF sys_step.otlp [OF request(6), of "pgReconciler pg" svcs]] request show ?thesis by auto
next
  case (cluster svcs st a)
  from sys_run_step [OF sys_step.platform [of "pgReconciler pg" env svcs st a]] cluster show ?thesis by auto
qed (auto intro: sys_run.start)

lemma process_run_sys:
  assumes "process_run pg env p0 es p"
  shows "\<exists>evs. sys_run (pgReconciler pg) env (pcSystem p0) evs (pcSystem p)"
  using assms
proof (induction rule: process_run.induct)
  case start
  then show ?case by (auto intro: sys_run.start)
next
  case (step es p e p')
  with process_step_sys [OF step.hyps(2)] show ?case using sys_run_trans by blast
qed

section \<open>No panic\<close>

definition process_ok :: "('p, 'a) process \<Rightarrow> bool" where
  "process_ok p \<longleftrightarrow> store_ok (rsStore (snd (pcSystem p))) \<and> (\<forall>svc \<in> set (fst (pcSystem p)). policies_ok (sPolicies svc))
     \<and> pcStatus p \<in> {Entering, Looping, Exited 0}"

lemma loop_tick_ok:
  assumes "env_ok env" "store_ok (rsStore (snd (pcSystem p)))" "\<forall>svc \<in> set (fst (pcSystem p)). policies_ok (sPolicies svc)"
  shows "process_ok (loop_tick rc env p)"
  using tick_total [OF assms, of rc] by (auto simp: loop_tick_def process_ok_def)

lemma process_run_ok:
  assumes "process_run pg env p0 es p" "process_ok p0" "env_ok env" "0 < rcInterval (pgReconciler pg)"
  shows "process_ok p"
  using assms(1)
proof (induction rule: process_run.induct)
  case (step es p e p')
  have ok: "store_ok (rsStore (snd (pcSystem p)))" "\<forall>svc \<in> set (fst (pcSystem p)). policies_ok (sPolicies svc)"
    using step.IH by (simp_all add: process_ok_def)
  from step.hyps(2) show ?case
  proof (cases rule: process_step.cases)
    case enter
    then show ?thesis using loop_tick_ok [OF assms(3) ok] assms(4) by (simp add: enter_loop_def)
  next
    case tick
    then show ?thesis using loop_tick_ok [OF assms(3), of "p\<lparr>pcTicker := False\<rparr>"] ok by simp
  next
    case (request r svcs st fmt receivedAt req k store)
    have "range_order (envOrder env)" "store_ok (rsStore st)" using assms(3) ok(1) request by (simp_all add: env_ok_def)
    from process_request_within [OF this, of fmt r receivedAt req "envClock env" "rsReads st"] request step.IH
    show ?thesis by (simp add: process_ok_def store_within_def)
  qed (use step.IH in \<open>auto simp: process_ok_def\<close>)
qed (rule assms(2))

section \<open>A program that is started and stopped\<close>

lemma example_exits:
  obtains pg p0 es p r where
    "main_launch (example_world example_config) ''f'' False () = Started pg p0" "pgReceiver pg = Some r"
    "process_run pg example_env p0 es p" "Outside \<notin> set es" "count_list es TickReceived = 3" "SignalArrives \<in> set es"
    "pcStatus p = Exited 0" "main_run example_env 3 () pg = Some (pcSystem p)"
proof -
  let ?wd = "example_world example_config" and ?cfg = "apply_flag False (apply_defaults example_config)"
  obtain pg r where pg: "main_setup ?wd ''f'' False = Inr pg" "pgReceiver pg = Some r"
    using example_sets_up by blast
  then have "run_setup ?wd ?cfg = Inr pg" by (simp add: main_setup_def example_loads)
  then obtain effs ds where s: "run_start ?wd ?cfg = (Inr pg, effs, ds)"
    using run_start_fst [of ?wd ?cfg] by (metis prod.collapse)
  then have l: "main_launch ?wd ''f'' False () = Started pg (launch pg effs ds ())"
    by (simp add: main_launch_def example_loads)
  have "0 \<le> ReconcileInterval (apply_defaults example_config)" by (simp add: example_config_simps Let_def second_def)
  from main_run_total [OF _ example_loads example_int64 this pg(1) example_env_ok, of 3 "()"] obtain sys where
    "main_run example_env 3 () pg = Some sys" by (auto simp: example_world_def range_order_rev)
  with quiet_exit_exists [OF this, of effs ds] l pg(2) show thesis by (metis that)
qed

section \<open>Properties\<close>

text \<open>The process runs the loop: in runs without outside events the exits with status 0 are exactly the
  results of the loop, one for each number of ticks received, and a run that ends in a panic is one
  whose loop panics.\<close>

theorem process_runs_loop:
  assumes "main_launch wd path flag a = Started pg p0"
  shows "((\<exists>es p. process_run pg env p0 es p \<and> Outside \<notin> set es \<and> count_list es TickReceived = n
      \<and> pcStatus p = Exited 0 \<and> pcSystem p = sys) \<longleftrightarrow> main_run env n a pg = Some sys)
    \<and> (process_run pg env p0 es' p' \<and> Outside \<notin> set es' \<and> pcStatus p' = Exited 2 \<longrightarrow>
        main_run env (count_list es' TickReceived) a pg = None)"
proof -
  obtain effs ds where p0: "p0 = launch pg effs ds a"
    using assms by (auto simp: main_launch_def split: sum.splits prod.splits)
  let ?sys = "(pgServices pg, initial_state (pgStore pg) (a, new_memory_adapter))"
  have run: "main_run env n a pg = run_loop (pgReconciler pg) env n ?sys" for n by (simp add: main_run_def)
  have inv: "loop_inv pg env ?sys es p" if "process_run pg env p0 es p" "Outside \<notin> set es" for es p
    using process_run_loop [OF that(1) [unfolded p0] that(2)] .
  have "\<exists>es p. process_run pg env p0 es p \<and> Outside \<notin> set es \<and> count_list es TickReceived = n
      \<and> pcStatus p = Exited 0 \<and> pcSystem p = sys" if "main_run env n a pg = Some sys"
    using quiet_exit_exists [OF that, of effs ds] unfolding p0 by blast
  then show ?thesis using inv unfolding run loop_inv_def by fastforce
qed

theorem process_runs_loop_witness:
  "\<exists>pg p0 es p. main_launch (example_world example_config) ''f'' False () = Started pg p0 \<and> process_run pg example_env p0 es p
    \<and> count_list es TickReceived = 3 \<and> main_run example_env 3 () pg = Some (pcSystem p)"
proof (rule example_exits)
  fix pg p0 es p r
  assume l: "main_launch (example_world example_config) ''f'' False () = Started pg p0"
    and p: "process_run pg example_env p0 es p" "Outside \<notin> set es" "count_list es TickReceived = 3" "pcStatus p = Exited 0"
  from process_runs_loop [OF l, of example_env 3 "pcSystem p"] p have "main_run example_env 3 () pg = Some (pcSystem p)" by blast
  with l p show ?thesis by blast
qed

text \<open>C10. The process stays within the system: whatever ticks, requests, signals and cluster changes happen, the
  state of a started program is reached by the step relation of the system from the initial state, so
  that every property of its runs holds of the process.\<close>

theorem process_within_system:
  assumes "main_launch wd path flag a = Started pg p0" "process_run pg env p0 es p"
  shows "\<exists>evs. sys_run (pgReconciler pg) env (pgServices pg, initial_state (pgStore pg) (a, new_memory_adapter)) evs (pcSystem p)"
  using process_run_sys [OF assms(2)] main_launch_started [OF assms(1)] by simp

theorem process_within_system_witness:
  "\<exists>pg p0 es p evs. main_launch (example_world example_config) ''f'' False () = Started pg p0 \<and> process_run pg example_env p0 es p
    \<and> pcStatus p = Exited 0
    \<and> sys_run (pgReconciler pg) example_env (pgServices pg, initial_state (pgStore pg) ((), new_memory_adapter)) evs (pcSystem p)"
proof (rule example_exits)
  fix pg p0 es p r
  assume l: "main_launch (example_world example_config) ''f'' False () = Started pg p0"
    and p: "process_run pg example_env p0 es p" "pcStatus p = Exited 0"
  from process_within_system [OF l p(1)] l p show ?thesis by blast
qed





end
