(* ===== verification/Platform_Loop.thy ===== *)
theory Platform_Loop
  imports Reconciler
begin

text \<open>
  The reconciler's tick over an adapter that keeps its contract. \<open>applied\<close> is the abstract
  specification: the target counts of the platform are a function from service names, and a tick
  changes it by its outcomes. The lemmas are proved once in the locale \<open>count_adapter\<close> and hold
  for the ECS adapter and for the in-memory adapter.
\<close>

fun applied :: "outcome list \<Rightarrow> 'p service list \<Rightarrow> (string \<Rightarrow> int) \<Rightarrow> (string \<Rightarrow> int)" where
  "applied (r # rs) (svc # svcs) c = applied rs svcs (case r of Scaled d n \<Rightarrow> c(sIdentifier svc := n) | _ \<Rightarrow> c)"
| "applied _ _ c = c"

definition settled :: "(int \<Rightarrow> bool) \<Rightarrow> outcome \<Rightarrow> bool" where
  "settled fits r \<longleftrightarrow> (case r of Scaled d n \<Rightarrow> fits n | ScaleFailed e \<Rightarrow> False | _ \<Rightarrow> True)"

context count_adapter
begin

lemma reconcile_counts:
  assumes "rcAdapter rc = api" "reconcile_service rc env svc current st = Some (result, svc', st')" "settled fits result"
  shows "cnt (rsPlatform st') = applied [result] [svc] (cnt (rsPlatform st))"
    "known (rsPlatform st') = known (rsPlatform st)"
proof -
  note eff = reconcile_effect(1) [OF assms(2)]
  have "cnt (rsPlatform st') = applied [result] [svc] (cnt (rsPlatform st)) \<and> known (rsPlatform st') = known (rsPlatform st)"
  proof (cases result)
    case (Scaled d n)
    with eff assms(1) have "Scale api (sIdentifier svc) n (rsPlatform st) = (Inr (), rsPlatform st')"
      by (simp add: outcome_effect_def)
    with scale_sets [OF this] scale_same_known [of "sIdentifier svc" n "rsPlatform st"] Scaled assms(3) show ?thesis
      by (simp add: settled_def)
  qed (use eff assms(3) in \<open>simp_all add: outcome_effect_def settled_def\<close>)
  then show "cnt (rsPlatform st') = applied [result] [svc] (cnt (rsPlatform st))"
    "known (rsPlatform st') = known (rsPlatform st)" by blast+
qed

lemma reconcile_all_counts:
  assumes "rcAdapter rc = api" "reconcile_all rc env counts svcs st = Some (outs, svcs', st')" "list_all (settled fits) outs"
  shows "length outs = length svcs \<and> cnt (rsPlatform st') = applied outs svcs (cnt (rsPlatform st))"
  using assms(2,3)
proof (induction svcs arbitrary: st outs svcs')
  case (Cons svc svcs)
  from Cons.prems(1) obtain result svc1 st1 outs1 svcs1 where
    r: "reconcile_service rc env svc (case counts (sIdentifier svc) of None \<Rightarrow> 0 | Some n \<Rightarrow> n) st = Some (result, svc1, st1)"
    and a: "reconcile_all rc env counts svcs st1 = Some (outs1, svcs1, st')" and o: "outs = result # outs1"
    by (auto simp: bind_eq_Some_conv)
  then show ?case
    using reconcile_counts(1) [OF assms(1) r] Cons.IH [OF a] Cons.prems(2) by simp
qed simp

lemma tick_counts:
  assumes "rcAdapter rc = api" "tick rc env (svcs, st) = Some (outs, svcs', st')" "list_all (settled fits) outs"
    and "\<forall>svc \<in> set svcs. known (rsPlatform st) (sIdentifier svc)"
  shows "length outs = length svcs \<and> cnt (rsPlatform st') = applied outs svcs (cnt (rsPlatform st))"
proof -
  let ?p = "poll_prometheus_metrics rc env svcs st"
  have p: "rsPlatform ?p = rsPlatform st" by (rule poll_frame(2))
  obtain m a where g: "GetCurrentCounts api (map sIdentifier svcs) (rsPlatform st) = (Inr m, a)"
    using counts_known [of "map sIdentifier svcs" "rsPlatform st"] assms(4) by auto
  have "cnt a = cnt (rsPlatform st)"
    using counts_same [of "map sIdentifier svcs" "rsPlatform st"] g by simp
  moreover have "reconcile_all rc env m svcs (?p\<lparr>rsPlatform := a\<rparr>) = Some (outs, svcs', st')"
    using assms(2) g p by (simp add: tick_def Let_def assms(1))
  ultimately show ?thesis using reconcile_all_counts [OF assms(1) _ assms(3)] by fastforce
qed

end

section \<open>Properties\<close>



end
