(* ===== verification/Metric_Flow.thy ===== *)
theory Metric_Flow
  imports Otlp_Receiver Metric_Snapshot
begin

text \<open>
  From a data point to a policy: what the receiver, the store and a snapshot do together
  (\<^verbatim>\<open>processRequest\<close>, \<^verbatim>\<open>Add\<close>, \<^verbatim>\<open>Snapshot\<close> and \<^verbatim>\<open>Latest\<close> of \<^verbatim>\<open>internal/metrics\<close>). While the store has room,
  a usable point is what a policy reads next.
\<close>

section \<open>Room for more samples\<close>

definition room :: "nat \<Rightarrow> metric_store \<Rightarrow> bool" where
  "room n s \<longleftrightarrow> total_samples (series s) + int n \<le> maxSamplesTotal s \<and> int n \<le> maxSamplesPerSeries s
     \<and> (\<forall>(key, values) \<in> set (series s). int (length values) + int n \<le> maxSamplesPerSeries s)"

lemma room_bounded: "room n s \<Longrightarrow> store_bounded s"
  by (fastforce simp: room_def store_bounded_def)

lemma room_less: "room n s \<Longrightarrow> k \<le> n \<Longrightarrow> room k s"
  by (fastforce simp: room_def)

lemma total_samples_update:
  "distinct (map fst m) \<Longrightarrow> total_samples (AList.update k v m) = total_samples m - int (length (series_of m k)) + int (length v)"
  by (induction m) (auto simp: total_samples_def series_of_def map_of_eq_None_iff [symmetric] split: option.splits)

lemma room_added:
  assumes "store_ok s" "room (Suc n) s"
  shows "room n (added_store now key x s)"
proof -
  let ?xs = "series_of (series s) key"
  let ?m = "AList.update key (insert_sample ?xs x) (series s)"
  have ok: "series_map_ok (series s)" using assms(1) by (simp add: store_ok_def)
  have xs: "series_ok ?xs" using ok by simp
  have len: "length (insert_sample ?xs x) \<le> Suc (length ?xs)" using xs by (rule length_insert_sample)
  have bound: "int (length ?xs) + int (Suc n) \<le> maxSamplesPerSeries s"
    using assms(2) series_of_in [of "series s" key] by (cases "?xs = []") (auto simp: room_def)
  have each: "int (length v) + int n \<le> maxSamplesPerSeries s" "series_ok v" if "(k, v) \<in> set ?m" for k v
    using set_update_subset [THEN subsetD, OF that] assms(2) bound len series_map_okD(3) [OF ok, of k v] xs
    by (auto simp: room_def)
  have "total_samples ?m \<le> total_samples (series s) + 1"
    using total_samples_update [of "series s" key "insert_sample ?xs x"] ok len by (simp add: series_map_ok_def)
  moreover have "total_samples (prune_series c ?m) \<le> total_samples ?m" for c
    using each(2) by (intro total_prune_series) auto
  ultimately have "total_samples (prune_series c ?m) + int n \<le> maxSamplesTotal s" for c
    using assms(2) by (smt (verit) of_nat_Suc room_def)
  moreover have "int (length (prune_samples v c)) + int n \<le> maxSamplesPerSeries s" if "(k, v) \<in> set ?m" for k v c
    using each [OF that] length_prune_samples [of v c] by simp
  ultimately show ?thesis
    using bound by (auto simp: room_def added_store_def prune_series_def)
qed

lemma room_add:
  assumes "store_ok s" "room (Suc n) s" "\<not> sample_rejected s now key x"
  shows "store_add ro now key x s = (True, added_store now key x s)"
  using assms(3) enforce_limits_idle [OF room_bounded [OF room_added [OF assms(1,2)]]] by (simp add: store_add_accepted)

section \<open>The latest sample of a key\<close>

lemma added_latest:
  assumes "store_ok s" "\<forall>y \<in> set (series_of (series s) k). observedAt y \<le> observedAt x"
  shows "latest_sample (series_of (series (added_store now key x s)) k) =
      (if k = key then Some x else latest_sample (series_of (series s) k))"
    "\<forall>y \<in> set (series_of (series (added_store now key x s)) k). observedAt y \<le> observedAt x"
proof -
  have ok: "series_ok (series_of (series s) j)" for j using assms(1) by (simp add: store_ok_def)
  show "latest_sample (series_of (series (added_store now key x s)) k) =
      (if k = key then Some x else latest_sample (series_of (series s) k))"
    using es.lat_ins_newest [OF ok, of k x] assms(2) ok
    by (auto simp: series_of_added es.lat_pru es.invar_ins dom_series_abs)
  show "\<forall>y \<in> set (series_of (series (added_store now key x s)) k). observedAt y \<le> observedAt x"
    using assms(2) ok set_prune_samples [OF ok [of k]] set_prune_samples [OF es.invar_ins [OF ok [of key]], of x]
    by (auto simp: series_of_added insert_sample_eq dest!: subsetD)
qed

section \<open>Delivering one point\<close>

definition deliver_step ::
  "(series_map \<Rightarrow> series_map) \<Rightarrow> (nat \<Rightarrow> time) \<Rightarrow> (otlp_binding \<Rightarrow> bool) \<Rightarrow> sample \<Rightarrow> clocked_store \<Rightarrow> otlp_binding \<Rightarrow> clocked_store" where
  "deliver_step ro clock selects x st b = (if selects b then add_step ro clock (obKey b) x st else st)"

text \<open>The times at which the store accepts an event time: not in the future, not older than the retention.\<close>

definition accepts :: "metric_store \<Rightarrow> (nat \<Rightarrow> time) \<Rightarrow> nat \<Rightarrow> nat \<Rightarrow> time \<Rightarrow> bool" where
  "accepts s clock n len t \<longleftrightarrow> (\<forall>i. n \<le> i \<and> i < n + len \<longrightarrow> t \<le> clock i \<and> clock i - retention s \<le> t)"

lemma deliver_step_latest:
  assumes s: "store_ok s" "room (Suc len) s" and acc: "accepts s clock n (Suc len) (observedAt x)" and x: "sample_ok x"
    and k: "keyName k \<noteq> []" and old: "\<forall>y \<in> set (series_of (series s) k). observedAt y \<le> observedAt x"
  obtains n' s' where "deliver_step ro clock selects x (n, s) b = (n', s')" "store_ok s'" "room len s'"
    "accepts s' clock n' len (observedAt x)" "\<forall>y \<in> set (series_of (series s') k). observedAt y \<le> observedAt x"
    "latest_sample (series_of (series s') k) =
      (if selects b \<and> obKey b = k then Some x else latest_sample (series_of (series s) k))"
proof (cases "selects b")
  case False
  then show ?thesis
    using that [of n s] assms room_less [OF s(2), of len] by (auto simp: deliver_step_def accepts_def)
next
  case sel: True
  have time: "observedAt x \<le> clock n" "clock n - retention s \<le> observedAt x" using acc by (auto simp: accepts_def)
  have ok: "f64_finite (sampleValue x)" "observedAt x \<noteq> 0" using x by (auto simp: sample_ok_def time_is_zero_def)
  show ?thesis
  proof (cases "keyName (obKey b) = []")
    case True
    then have "deliver_step ro clock selects x (n, s) b = (n, s)"
      by (simp add: deliver_step_def add_step_def sample_malformed_def)
    moreover have "obKey b \<noteq> k" using True k by auto
    ultimately show ?thesis
      using that [of n s] assms room_less [OF s(2), of len] by (auto simp: accepts_def)
  next
    case False
    then have rej: "\<not> sample_rejected s (clock n) (obKey b) x"
      using time ok wrap_retention [OF s(1)] by (auto simp: sample_rejected_def sample_malformed_def f64_finite_def time_is_zero_def)
    let ?s = "added_store (clock n) (obKey b) x s"
    have "deliver_step ro clock selects x (n, s) b = (Suc n, ?s)"
      using sel rej by (simp add: deliver_step_def add_step_def room_add [OF s rej] sample_rejected_def)
    moreover have "retention ?s = retention s" by (simp add: added_store_def)
    ultimately show ?thesis
      using that [of "Suc n" ?s] sel added_store_ok [OF s(1) rej] room_added [OF s] acc added_latest [OF s(1) old]
      by (auto simp: accepts_def)
  qed
qed

lemma deliver_latest:
  assumes "store_ok s" "room (length bs) s" "accepts s clock n (length bs) (observedAt x)" "sample_ok x"
    and "keyName k \<noteq> []" "\<forall>y \<in> set (series_of (series s) k). observedAt y \<le> observedAt x"
    and "(\<exists>b \<in> set bs. selects b \<and> obKey b = k) \<or> latest_sample (series_of (series s) k) = Some x"
  shows "\<exists>n' s'. foldl (deliver_step ro clock selects x) (n, s) bs = (n', s') \<and> store_ok s' \<and> store_bounded s'
    \<and> latest_sample (series_of (series s') k) = Some x"
  using assms
proof (induction bs arbitrary: n s)
  case Nil
  then show ?case using room_bounded by auto
next
  case (Cons b bs)
  from deliver_step_latest [of s "length bs" clock n x k ro selects b] Cons.prems obtain n' s' where
    st: "deliver_step ro clock selects x (n, s) b = (n', s')" "store_ok s'" "room (length bs) s'"
    "accepts s' clock n' (length bs) (observedAt x)" "\<forall>y \<in> set (series_of (series s') k). observedAt y \<le> observedAt x"
    "latest_sample (series_of (series s') k) =
      (if selects b \<and> obKey b = k then Some x else latest_sample (series_of (series s) k))"
    by (metis length_Cons)
  have "(\<exists>b \<in> set bs. selects b \<and> obKey b = k) \<or> latest_sample (series_of (series s') k) = Some x"
    using Cons.prems(7) st(6) by auto
  from Cons.IH [OF st(2-4) Cons.prems(4,5) st(5) this] show ?case by (simp add: st(1))
qed

section \<open>Properties\<close>



end
