(* ===== verification/End_To_End.thy ===== *)
theory End_To_End
  imports Metric_Flow System
begin

text \<open>
  From the wire to the platform: OTLP requests that deliver one breaching point for each slot of a
  window, followed by a reconciliation, make the platform scale up. The theory joins the receiver
  (\<^verbatim>\<open>processRequest\<close>), the store (\<^verbatim>\<open>Add\<close>, \<^verbatim>\<open>Snapshot\<close>), the window policy and the reconciler.
\<close>

section \<open>A sequence of requests\<close>

definition push_all ::
  "(series_map \<Rightarrow> series_map) \<Rightarrow> (nat \<Rightarrow> time) \<Rightarrow> (f64 \<Rightarrow> string) \<Rightarrow> otlp_receiver \<Rightarrow> (time \<times> export_request) list
   \<Rightarrow> clocked_store \<Rightarrow> clocked_store" where
  "push_all ro clock fmt r reqs st = foldl (\<lambda>st (receivedAt, req). process_request ro clock fmt r receivedAt req st) st reqs"

text \<open>A request with one number point whose metric has one binding, to \<open>key\<close>, that selects it: it
  delivers the sample \<open>x\<close>.\<close>

definition delivers :: "(f64 \<Rightarrow> string) \<Rightarrow> otlp_receiver \<Rightarrow> metric_key \<Rightarrow> time \<times> export_request \<Rightarrow> sample \<Rightarrow> bool" where
  "delivers fmt r key rq x \<longleftrightarrow>
     (\<exists>m p b. snd rq = [[[m]]] \<and> data_points (omData m) = [Some p] \<and> bindings_of r (omName m) = [b] \<and> obKey b = key
        \<and> matches_attributes fmt (dpAttributes p) (obAttributes b) \<and> extract_value (Some p) = Some (sampleValue x)
        \<and> observed_at (TimeUnixNano p) (fst rq) = Some (observedAt x))"

lemma delivers_adds:
  assumes "delivers fmt r key (receivedAt, req) x" "sample_ok x" "keyName key \<noteq> []"
  shows "process_request ro clock fmt r receivedAt req (n, s) = (Suc n, snd (store_add ro (clock n) key x s))"
proof -
  have "\<not> sample_malformed key x"
    using assms(2,3) by (auto simp: sample_malformed_def sample_ok_def f64_finite_def)
  then show ?thesis
    using assms(1) by (cases x) (auto simp: delivers_def process_request_def process_metric_def process_point_def add_step_def)
qed

section \<open>What the store collects\<close>

text \<open>From \<open>t0\<close> on, the series holds exactly the samples \<open>xs\<close>.\<close>

definition holds_from :: "time \<Rightarrow> sample set \<Rightarrow> sample list \<Rightarrow> bool" where
  "holds_from t0 X values \<longleftrightarrow> X \<subseteq> set values \<and> (\<forall>y \<in> set values. t0 \<le> observedAt y \<longrightarrow> y \<in> X)"

lemma holds_from_prune:
  assumes "series_ok values" "holds_from t0 X values" "c \<le> t0" "\<forall>x \<in> X. t0 \<le> observedAt x"
  shows "holds_from t0 X (prune_samples values c)"
proof -
  have "x \<in> set (prune_samples values c)" if "x \<in> X" for x
    using that assms by (intro prune_samples_keeps) (auto simp: holds_from_def)
  then show ?thesis using assms(2) set_prune_samples [OF assms(1), of c] by (auto simp: holds_from_def)
qed

lemma holds_from_insert:
  assumes "series_ok values" "holds_from t0 X values" "\<forall>y \<in> X. observedAt y \<noteq> observedAt x"
  shows "holds_from t0 (insert x X) (insert_sample values x)"
  using assms by (auto simp: holds_from_def set_insert_sample)

lemma push_all_collects:
  assumes "list_all2 (delivers fmt r key) reqs xs" "keyName key \<noteq> []" "list_all sample_ok xs"
    and "distinct (map observedAt xs)" "\<forall>x \<in> set xs. t0 \<le> observedAt x \<and> (\<forall>y \<in> X. observedAt y \<noteq> observedAt x)"
    and "\<forall>y \<in> X. t0 \<le> observedAt y"
    and "\<forall>i < length xs. observedAt (xs ! i) \<le> clock (n + i) \<and> clock (n + i) - retention s \<le> t0"
    and "store_ok s" "room (length xs) s" "holds_from t0 X (series_of (series s) key)"
  shows "\<exists>s'. push_all ro clock fmt r reqs (n, s) = (n + length xs, s') \<and> store_ok s' \<and> store_bounded s'
    \<and> retention s' = retention s \<and> holds_from t0 (X \<union> set xs) (series_of (series s') key)"
  using assms
proof (induction reqs xs arbitrary: n s X rule: list_all2_induct)
  case Nil
  then show ?case using room_bounded by (simp add: push_all_def)
next
  case (Cons rq reqs x xs)
  obtain receivedAt req where rq: "rq = (receivedAt, req)" by (cases rq)
  let ?s = "added_store (clock n) key x s"
  have x: "sample_ok x" "t0 \<le> observedAt x" "observedAt x \<le> clock n" "clock n - retention s \<le> t0"
    using Cons.prems(2,4) Cons.prems(6) [rule_format, of 0] by auto
  have rej: "\<not> sample_rejected s (clock n) key x"
    using x Cons.prems(1) wrap_retention [OF Cons.prems(7)]
    by (auto simp: sample_rejected_def sample_malformed_def sample_ok_def f64_finite_def)
  have room: "room (Suc (length xs)) s" using Cons.prems(8) by simp
  have eq: "process_request ro clock fmt r receivedAt req (n, s) = (Suc n, ?s)"
    using delivers_adds [OF _ x(1) Cons.prems(1)] Cons.hyps(1) rq room_add [OF Cons.prems(7) room rej] by simp
  have ok: "series_ok (series_of (series s) key)" using Cons.prems(7) by (simp add: store_ok_def)
  have c: "clock n + wrap64 (- retention s) \<le> t0" using x(4) by (simp add: wrap_retention [OF Cons.prems(7)])
  have "holds_from t0 (insert x X) (insert_sample (series_of (series s) key) x)"
    using holds_from_insert [OF ok Cons.prems(9)] Cons.prems(4) by simp
  then have h: "holds_from t0 (insert x X) (series_of (series ?s) key)"
    unfolding series_of_added using x(2) Cons.prems(5) c ok by (auto intro!: holds_from_prune)
  have r: "retention ?s = retention s" by (simp add: added_store_def)
  have "\<forall>i < length xs. observedAt (xs ! i) \<le> clock (Suc n + i) \<and> clock (Suc n + i) - retention ?s \<le> t0"
    using Cons.prems(6) [rule_format, of "Suc i" for i] by (simp add: r)
  moreover have "\<forall>y \<in> set xs. t0 \<le> observedAt y \<and> (\<forall>z \<in> insert x X. observedAt z \<noteq> observedAt y)"
    using Cons.prems(3,4) by (auto simp: rev_image_eqI)
  ultimately have "\<exists>s'. push_all ro clock fmt r reqs (Suc n, ?s) = (Suc n + length xs, s') \<and> store_ok s' \<and> store_bounded s'
    \<and> retention s' = retention ?s \<and> holds_from t0 (insert x X \<union> set xs) (series_of (series s') key)"
    using Cons.prems(2,3,5) x(2)
    by (intro Cons.IH [OF Cons.prems(1) _ _ _ _ _ added_store_ok [OF Cons.prems(7) rej] room_added [OF Cons.prems(7) room] h]) auto
  then show ?case using eq r by (simp add: push_all_def rq)
qed

section \<open>The window over what was collected\<close>

lemma holds_from_sustained:
  assumes "holds_from (window_slot now width cnt 0) (set xs) values" "0 < width" "length xs = nat cnt"
    and "cutoff = 0 \<or> cutoff \<le> window_slot now width cnt 0"
    and slots: "\<And>i. i < nat cnt \<Longrightarrow> window_slot now width cnt i \<le> observedAt (xs ! i)
      \<and> observedAt (xs ! i) < window_slot now width cnt i + width \<and> p (sampleValue (xs ! i))"
  shows "sustained p values now width cnt cutoff"
proof -
  have "represents values (window_slot now width cnt i) (window_slot now width cnt i + width) (xs ! i)"
    if i: "i < nat cnt" for i
  proof -
    have "xs ! i \<in> set xs" using i assms(3) by simp
    then have mem: "xs ! i \<in> set values" using assms(1) by (auto simp: holds_from_def)
    have le: "observedAt y \<le> observedAt (xs ! i)" if y: "y \<in> set values" "observedAt y < window_slot now width cnt i + width" for y
    proof (cases "window_slot now width cnt 0 \<le> observedAt y")
      case False
      with window_slot_mono [OF assms(2), of 0 i now cnt] slots [OF i] show ?thesis by simp
    next
      case True
      then have "y \<in> set xs" using assms(1) y(1) by (auto simp: holds_from_def)
      then obtain j where j: "j < nat cnt" "y = xs ! j" using assms(3) by (auto simp: in_set_conv_nth)
      consider "j = i" | "j < i" | "i < j" by linarith
      then show ?thesis
      proof cases
        case 2
        then have "window_slot now width cnt (Suc j) \<le> window_slot now width cnt i"
          by (intro window_slot_mono [OF assms(2)]) simp
        with slots [OF j(1)] slots [OF i] j(2) show ?thesis by (simp add: window_slot_Suc)
      next
        case 3
        then have "window_slot now width cnt (Suc i) \<le> window_slot now width cnt j"
          by (intro window_slot_mono [OF assms(2)]) simp
        with slots [OF j(1)] j(2) y(2) show ?thesis by (simp add: window_slot_Suc)
      qed (simp add: j(2))
    qed
    with mem slots [OF i] show ?thesis by (simp add: represents_def)
  qed
  with slots assms(4) show ?thesis unfolding sustained_def by blast
qed

text \<open>One breaching sample in each slot of the window, each delivered when it is not in the future.\<close>

definition breaching ::
  "window_policy \<Rightarrow> window_threshold \<Rightarrow> (nat \<Rightarrow> time) \<Rightarrow> nat \<Rightarrow> sample list \<Rightarrow> time \<Rightarrow> bool" where
  "breaching w th clock n xs now \<longleftrightarrow>
     (let cnt = thSustainedFor th div wpBucketDuration w; slot = window_slot now (wpBucketDuration w) cnt in
      length xs = nat cnt \<and> 0 < slot 0 \<and> (wpResetCutoff w = 0 \<or> wpResetCutoff w \<le> slot 0)
      \<and> (\<forall>i < length xs. slot i \<le> observedAt (xs ! i) \<and> observedAt (xs ! i) < slot i + wpBucketDuration w
           \<and> observedAt (xs ! i) \<le> clock (n + i)
           \<and> f64_finite (sampleValue (xs ! i)) \<and> f64_less (thThreshold th) (sampleValue (xs ! i))))"

lemma slots_sorted:
  assumes "0 < width" "\<And>i. i < length xs \<Longrightarrow> window_slot now width cnt i \<le> observedAt (xs ! i)
      \<and> observedAt (xs ! i) < window_slot now width cnt i + width"
  shows "sorted_wrt (<) (map observedAt xs)"
  unfolding sorted_wrt_iff_nth_less
proof (intro allI impI)
  fix i j assume "i < j" "j < length (map observedAt xs)"
  moreover from this have "window_slot now width cnt (Suc i) \<le> window_slot now width cnt j"
    by (intro window_slot_mono [OF assms(1)]) simp
  ultimately show "map observedAt xs ! i < map observedAt xs ! j"
    using assms(2) [of i] assms(2) [of j] by (simp add: window_slot_Suc)
qed

lemma breaching_samples:
  fixes w th now
  defines "t0 \<equiv> window_slot now (wpBucketDuration w) (thSustainedFor th div wpBucketDuration w) 0"
  assumes "breaching w th clock n xs now" "0 < wpBucketDuration w"
  shows "distinct (map observedAt xs)" "list_all sample_ok xs" "\<forall>x \<in> set xs. t0 \<le> observedAt x"
proof -
  let ?slot = "window_slot now (wpBucketDuration w) (thSustainedFor th div wpBucketDuration w)"
  have s: "?slot i \<le> observedAt (xs ! i) \<and> observedAt (xs ! i) < ?slot i + wpBucketDuration w" "f64_finite (sampleValue (xs ! i))"
    if "i < length xs" for i
    using assms(2) that by (simp_all add: breaching_def Let_def)
  have "sorted_wrt (<) (map observedAt xs)" using slots_sorted [OF assms(3)] s(1) by blast
  then show "distinct (map observedAt xs)" by (simp add: strict_sorted_iff)
  have ge: "t0 \<le> observedAt (xs ! i)" if "i < length xs" for i
    unfolding t0_def using order_trans [OF window_slot_mono [OF assms(3)]] s(1) [OF that] by blast
  then show "\<forall>x \<in> set xs. t0 \<le> observedAt x" by (auto simp: in_set_conv_nth)
  have "0 < t0" using assms(2) by (simp add: breaching_def Let_def t0_def)
  with ge s(2) show "list_all sample_ok xs"
    by (fastforce simp: list_all_length sample_ok_def time_is_zero_def)
qed

lemma collected_window_up:
  assumes "store_ok s" "store_bounded s" "breaching w th clock n xs now" "wpUpscale w = Some th" "window_ok w" "0 < length xs"
    and "holds_from (window_slot now (wpBucketDuration w) (thSustainedFor th div wpBucketDuration w) 0) (set xs)
      (series_of (series s) (MetricKey (wpService w) (wpMetric w)))"
    and "t - retention s \<le> window_slot now (wpBucketDuration w) (thSustainedFor th div wpBucketDuration w) 0"
  shows "window_up w (snapshot_samples (fst (store_snapshot ro t s)) (MetricKey (wpService w) (wpMetric w))) now"
proof -
  let ?key = "MetricKey (wpService w) (wpMetric w)" and ?cnt = "thSustainedFor th div wpBucketDuration w"
  let ?t0 = "window_slot now (wpBucketDuration w) ?cnt 0" and ?history = "series_of (fst (store_snapshot ro t s)) ?key"
  have width: "0 < wpBucketDuration w" using assms(5) by (simp add: window_ok_def)
  have "t + wrap64 (- retention s) \<le> ?t0" using assms(8) by (simp add: wrap_retention [OF assms(1)])
  then have h: "holds_from ?t0 (set xs) ?history"
    using holds_from_prune [OF _ assms(7)] breaching_samples(3) [OF assms(3) width] assms(1)
    by (simp add: store_snapshot_idle [OF assms(1,2)] series_of_prune store_ok_def)
  then have "?history \<noteq> []" using assms(6) by (auto simp: holds_from_def)
  then have "snapshot_samples (fst (store_snapshot ro t s)) ?key = ?history" by (simp add: snapshot_samples_def)
  moreover have "sustained (\<lambda>v. f64_less (thThreshold th) v) ?history now (wpBucketDuration w) ?cnt (wpResetCutoff w)"
    using assms(3) by (intro holds_from_sustained [OF h width]) (auto simp: breaching_def Let_def)
  ultimately show ?thesis using assms(4) by (simp add: window_up_def direction_holds_def)
qed

section \<open>From the wire to the platform\<close>

text \<open>A receiver with one binding, and requests with one point that takes the receive time.\<close>

definition pushed_env :: "rat run_env" where
  "pushed_env = \<lparr>envClock = (\<lambda>_. 101), envOrder = (\<lambda>m. m), envEngine = example_engine, envZones = (\<lambda>_. None)\<rparr>"

definition pushed_receiver :: otlp_receiver where
  "pushed_receiver = register_binding ''queue'' (MetricKey ''s'' ''q'') [] (new_otlp_receiver 4317 4318)"

definition pushed_request :: "int \<Rightarrow> export_request" where
  "pushed_request v = [[[\<lparr>omName = ''queue'', omData = Gauge (Some [Some \<lparr>dpAttributes = [], TimeUnixNano = 0,
     dpValue = AsDouble (Fin (of_int v))\<rparr>])\<rparr>]]]"



end
