(* ===== verification/Test_Clock.thy ===== *)
theory Test_Clock
  imports Reconciler
begin

text \<open>
  Clocks, and the helpers of the tests (\<^verbatim>\<open>internal/testutil\<close>). The components take their readings from
  a clock interface; a test injects one through an option, and without it the components use the
  real clock. The readings are the sequence \<open>envClock\<close> of the model; the lemmas show that a
  program without injected clocks reads the real one, and that a fake clock that starts after the
  zero time and is only advanced gives a sequence as \<open>env_ok\<close> asks for.
\<close>

record fake_clock =
  fcNow :: time

definition new_fake_clock :: "time \<Rightarrow> fake_clock" where
  "new_fake_clock t = \<lparr>fcNow = t\<rparr>"

definition fake_now :: "fake_clock \<Rightarrow> time" where
  "fake_now c = fcNow c"

definition fake_advance :: "duration \<Rightarrow> fake_clock \<Rightarrow> fake_clock" where
  "fake_advance d c = c\<lparr>fcNow := fcNow c + d\<rparr>"

definition fake_set :: "time \<Rightarrow> fake_clock \<Rightarrow> fake_clock" where
  "fake_set t c = c\<lparr>fcNow := t\<rparr>"

text \<open>The readings of a test that advances the clock by \<open>step i\<close> after reading \<open>i\<close>.\<close>

primrec fake_after :: "time \<Rightarrow> (nat \<Rightarrow> duration) \<Rightarrow> nat \<Rightarrow> fake_clock" where
  "fake_after t step 0 = new_fake_clock t"
| "fake_after t step (Suc n) = fake_advance (step n) (fake_after t step n)"

section \<open>Which clock a component reads\<close>

text \<open>The \<^verbatim>\<open>Clock\<close> interfaces: the real clock, or one that is injected with its readings.\<close>

datatype clock_source = RealClock | Injected "nat \<Rightarrow> time"

fun clock_readings :: "(nat \<Rightarrow> time) \<Rightarrow> clock_source \<Rightarrow> nat \<Rightarrow> time" where
  "clock_readings wall RealClock = wall"
| "clock_readings wall (Injected f) = f"

text \<open>\<^verbatim>\<open>WithClock\<close>; \<open>None\<close> is a nil interface. The store starts with the real clock and applies its options in order.\<close>

definition with_clock :: "clock_source option \<Rightarrow> clock_source \<Rightarrow> clock_source" where
  "with_clock clock s = (case clock of None \<Rightarrow> s | Some c \<Rightarrow> c)"

definition store_clock :: "clock_source option list \<Rightarrow> clock_source" where
  "store_clock opts = fold with_clock opts RealClock"

text \<open>The variadic argument of \<^verbatim>\<open>NewOTLPReceiver\<close>; its \<^verbatim>\<open>now\<close> falls back on the real clock as well.\<close>

definition receiver_clock :: "clock_source option list \<Rightarrow> clock_source" where
  "receiver_clock clocks = (case clocks of Some c # _ \<Rightarrow> c | _ \<Rightarrow> RealClock)"

definition receiver_now :: "(nat \<Rightarrow> time) \<Rightarrow> clock_source option \<Rightarrow> nat \<Rightarrow> time" where
  "receiver_now wall clock n = (case clock of None \<Rightarrow> wall n | Some c \<Rightarrow> clock_readings wall c n)"

record reconciler_options =
  optInterval :: duration
  optClock :: "clock_source option"
  optDryRun :: bool

text \<open>\<^verbatim>\<open>reconciler.New\<close> with its options: the reconciler and the clock it reads.\<close>

definition new_reconciler_with ::
  "'a adapter_api \<Rightarrow> (string \<times> prometheus_source) list \<Rightarrow> reconciler_options \<Rightarrow> 'a reconciler \<times> clock_source" where
  "new_reconciler_with adp promSources opts =
     (new_reconciler adp promSources (optInterval opts) (optDryRun opts),
      case optClock opts of None \<Rightarrow> RealClock | Some c \<Rightarrow> c)"

text \<open>The call in \<^verbatim>\<open>main\<close> injects no clock anywhere, so that all components read the same clock.\<close>

lemma main_reads_real_clock:
  "store_clock [] = RealClock" "receiver_clock [] = RealClock"
  "snd (new_reconciler_with adp promSources \<lparr>optInterval = i, optClock = None, optDryRun = d\<rparr>) = RealClock"
  by (simp_all add: store_clock_def receiver_clock_def new_reconciler_with_def)

lemma store_clock_last: "store_clock (opts @ [Some c]) = c" "store_clock (opts @ [None]) = store_clock opts"
  by (simp_all add: store_clock_def with_clock_def)

lemma receiver_now_readings: "receiver_now wall (Some (receiver_clock [])) = wall" "receiver_now wall None = wall"
  by (simp_all add: receiver_now_def receiver_clock_def fun_eq_iff)

section \<open>Test helpers\<close>

text \<open>\<^verbatim>\<open>Ptr\<close> gives a pointer, which is not nil, to a copy of its argument.\<close>

definition ptr :: "'v \<Rightarrow> 'v option" where
  "ptr v = Some v"

text \<open>\<^verbatim>\<open>Keys\<close> visits the map in the order \<open>ro\<close>.\<close>

definition map_keys :: "(('k \<times> 'v) list \<Rightarrow> ('k \<times> 'v) list) \<Rightarrow> ('k \<times> 'v) list \<Rightarrow> 'k list" where
  "map_keys ro m = foldl (\<lambda>result (k, _). result @ [k]) [] (ro m)"

lemma map_keys_eq:
  fixes m :: "('k \<times> 'v) list"
  shows "map_keys ro m = map fst (ro m)"
proof -
  have "foldl (\<lambda>result (k, _). result @ [k]) acc xs = acc @ map fst xs" for acc and xs :: "('k \<times> 'v) list"
    by (induction xs arbitrary: acc) auto
  then show ?thesis by (simp add: map_keys_def)
qed

lemma map_keys_exact:
  assumes "mset (ro m) = mset m" "distinct (map fst m)"
  shows "set (map_keys ro m) = dom (map_of m)" "distinct (map_keys ro m)"
proof -
  have s: "mset (map fst (ro m)) = mset (map fst m)" using assms(1) by simp
  show "set (map_keys ro m) = dom (map_of m)"
    using mset_eq_setD [OF s] by (simp add: map_keys_eq dom_map_of_conv_image_fst)
  show "distinct (map_keys ro m)"
    using mset_eq_imp_distinct_iff [OF s] assms(2) by (simp add: map_keys_eq)
qed

section \<open>A fake clock that is advanced\<close>

lemma fake_set_now [simp]: "fake_now (fake_set t c) = t"
  by (simp add: fake_now_def fake_set_def)

lemma fake_after_sum: "fake_now (fake_after t step n) = t + (\<Sum>i<n. step i)"
  by (induction n) (simp_all add: fake_now_def fake_advance_def new_fake_clock_def)

lemma fake_clock_env_ok:
  assumes "0 < t" "\<And>i. 0 \<le> step i" "range_order (envOrder env)"
  shows "env_ok (env\<lparr>envClock := \<lambda>n. fake_now (fake_after t step n)\<rparr>)"
proof -
  have "(\<Sum>k<i. step k) \<le> (\<Sum>k<j. step k)" if "i \<le> j" for i j
    using that assms(2) by (intro sum_mono2) auto
  then show ?thesis using assms(1,3) by (simp add: env_ok_def fake_after_sum)
qed

end
