(* ===== verification/Exported_Metrics.thy ===== *)
theory Exported_Metrics
  imports System
begin

text \<open>
  What the exported metrics (\<^verbatim>\<open>internal/server/server.go\<close>) say of a run. Each recorder changes one
  family; the lemmas give, family by family, what a reconciliation leaves in the registry, and
  the properties relate the counters and gauges to the recorded changes of scale, to the
  cooldown and to the samples of the snapshot.
\<close>

section \<open>What the recorders leave alone\<close>

lemma scale_events_frame [simp]:
  "scaleEventsTotal (record_current_scale s n g) = scaleEventsTotal g"
  "scaleEventsTotal (record_desired_scale s n g) = scaleEventsTotal g"
  "scaleEventsTotal (record_reconcile_latency s a g) = scaleEventsTotal g"
  "scaleEventsTotal (record_metric_age s m a g) = scaleEventsTotal g"
  "scaleEventsTotal (record_window_evaluation s d r g) = scaleEventsTotal g"
  "scaleEventsTotal (record_cooldown_active s d b g) = scaleEventsTotal g"
  by (simp_all add: record_current_scale_def record_desired_scale_def record_reconcile_latency_def
      record_metric_age_def record_window_evaluation_def record_cooldown_active_def Let_def)

lemma cooldown_active_frame [simp]:
  "cooldownActive (record_current_scale s n g) = cooldownActive g"
  "cooldownActive (record_desired_scale s n g) = cooldownActive g"
  "cooldownActive (record_reconcile_latency s a g) = cooldownActive g"
  "cooldownActive (record_metric_age s m a g) = cooldownActive g"
  "cooldownActive (record_window_evaluation s d r g) = cooldownActive g"
  "cooldownActive (record_scale_event_metric s d g) = cooldownActive g"
  by (simp_all add: record_current_scale_def record_desired_scale_def record_reconcile_latency_def
      record_metric_age_def record_window_evaluation_def record_scale_event_metric_def Let_def)

lemma metric_age_frame [simp]:
  "metricAge (record_current_scale s n g) = metricAge g"
  "metricAge (record_desired_scale s n g) = metricAge g"
  "metricAge (record_reconcile_latency s a g) = metricAge g"
  "metricAge (record_window_evaluation s d r g) = metricAge g"
  "metricAge (record_cooldown_active s d b g) = metricAge g"
  "metricAge (record_scale_event_metric s d g) = metricAge g"
  by (simp_all add: record_current_scale_def record_desired_scale_def record_reconcile_latency_def
      record_cooldown_active_def record_window_evaluation_def record_scale_event_metric_def Let_def)

lemma window_evaluations_frame [simp]:
  "windowEvaluationsTotal (record_current_scale s n g) = windowEvaluationsTotal g"
  "windowEvaluationsTotal (record_desired_scale s n g) = windowEvaluationsTotal g"
  "windowEvaluationsTotal (record_reconcile_latency s a g) = windowEvaluationsTotal g"
  "windowEvaluationsTotal (record_metric_age s m a g) = windowEvaluationsTotal g"
  "windowEvaluationsTotal (record_cooldown_active s d b g) = windowEvaluationsTotal g"
  "windowEvaluationsTotal (record_scale_event_metric s d g) = windowEvaluationsTotal g"
  by (simp_all add: record_current_scale_def record_desired_scale_def record_reconcile_latency_def
      record_cooldown_active_def record_metric_age_def record_scale_event_metric_def Let_def)

lemma record_windows_frame [simp]:
  "scaleEventsTotal (record_windows ws g) = scaleEventsTotal g"
  "cooldownActive (record_windows ws g) = cooldownActive g"
  "metricAge (record_windows ws g) = metricAge g"
  unfolding record_windows_def by (induction ws arbitrary: g) simp_all

lemma record_ages_frame [simp]:
  "scaleEventsTotal (record_ages service sn now names seen g) = scaleEventsTotal g"
  "cooldownActive (record_ages service sn now names seen g) = cooldownActive g"
  "windowEvaluationsTotal (record_ages service sn now names seen g) = windowEvaluationsTotal g"
  by (induction service sn now names seen g rule: record_ages.induct) (auto split: option.splits)

lemma can_scale_registry [simp]: "rsRegistry (snd (can_scale env svc current direction st)) = rsRegistry st"
  by (auto simp: can_scale_def read_clock_def split: option.splits)

section \<open>Counters\<close>

definition counted :: "nat option \<Rightarrow> nat" where
  "counted c = (case c of None \<Rightarrow> 0 | Some n \<Rightarrow> n)"

lemma counted_inc: "counted (inc m k k') = counted (m k') + (if k' = k then 1 else 0)"
  by (simp add: inc_def counted_def split: option.splits)

lemma counted_windows:
  "counted (windowEvaluationsTotal (record_windows ws g) k) = counted (windowEvaluationsTotal g k)
     + length (filter (\<lambda>w. (weService w, weDirection w, weResult w) = k) ws)"
  unfolding record_windows_def
  by (induction ws arbitrary: g) (auto simp: record_window_evaluation_def counted_inc)

section \<open>Ages\<close>

text \<open>The age of a sample in seconds, never negative.\<close>

definition age_seconds :: "time \<Rightarrow> sample \<Rightarrow> f64" where
  "age_seconds now x = (let a = time_sub now (observedAt x) in Fin (max 0 (rat_of_int a / 1000000000)))"

lemma record_metric_age_eq:
  "metricAge (record_metric_age s m (time_sub now (observedAt x)) g) = (metricAge g)((s, m) \<mapsto> age_seconds now x)"
  by (simp add: record_metric_age_def age_seconds_def duration_seconds_def Let_def max_def)

lemma record_ages_exact:
  "metricAge (record_ages service sn now names seen g) (service', name) =
     (if service' = service \<and> name \<in> set names - seen
      then (case Latest sn (MetricKey service name) of None \<Rightarrow> metricAge g (service', name) | Some x \<Rightarrow> Some (age_seconds now x))
      else metricAge g (service', name))"
  by (induction service sn now names seen g rule: record_ages.induct)
     (auto simp: record_metric_age_eq split: option.splits)

section \<open>The registry after a reconciliation\<close>

text \<open>What a reconciliation that ends with \<open>result\<close> does to the counter of changes of scale.\<close>

definition scale_labels :: "string \<Rightarrow> outcome \<Rightarrow> (string \<times> string) list" where
  "scale_labels service result =
     (case result of Scaled d n \<Rightarrow> [(service, direction_string d)] | DryRunScale d n \<Rightarrow> [(service, direction_string d)] | _ \<Rightarrow> [])"

text \<open>And to the cooldown gauge: nothing when no change was wanted, one when the cooldown held the
  change back, zero when it let it pass.\<close>

definition cooldown_gauge_after :: "string \<Rightarrow> int \<Rightarrow> outcome \<Rightarrow> (string \<times> string \<rightharpoonup> f64) \<Rightarrow> (string \<times> string \<rightharpoonup> f64) \<Rightarrow> bool" where
  "cooldown_gauge_after service current result m m' \<longleftrightarrow>
     (case result of
        NoDecisions \<Rightarrow> m' = m
      | Held \<Rightarrow> m' = m
      | InCooldown d n \<Rightarrow> m' = m((service, direction_string d) \<mapsto> Fin 1)
      | DryRunScale d n \<Rightarrow> m' = m((service, direction_string d) \<mapsto> Fin 0)
      | Scaled d n \<Rightarrow> m' = m((service, direction_string d) \<mapsto> Fin 0)
      | ScaleFailed e \<Rightarrow> (\<exists>d \<in> {ScaleUp, ScaleDown}. m' = m((service, direction_string d) \<mapsto> Fin 0)))"

lemma execute_scale_registry:
  assumes "execute_scale rc svc direction desired now st = (result, svc', st')"
  shows "scaleEventsTotal (rsRegistry st') = foldl inc (scaleEventsTotal (rsRegistry st)) (scale_labels (sName svc) result)"
    "cooldownActive (rsRegistry st') = cooldownActive (rsRegistry st)"
    "metricAge (rsRegistry st') = metricAge (rsRegistry st)"
    "windowEvaluationsTotal (rsRegistry st') = windowEvaluationsTotal (rsRegistry st)"
  using assms
  by (auto simp: execute_scale_def Let_def record_scale_event_eq scale_labels_def record_scale_event_metric_def
      split: if_splits sum.splits prod.splits)

lemma apply_decisions_registry:
  assumes "apply_decisions rc env svc current now bounds ds st = (result, svc', st')"
  shows "scaleEventsTotal (rsRegistry st') = foldl inc (scaleEventsTotal (rsRegistry st)) (scale_labels (sName svc) result)
    \<and> cooldown_gauge_after (sName svc) current result (cooldownActive (rsRegistry st)) (cooldownActive (rsRegistry st'))
    \<and> metricAge (rsRegistry st') = metricAge (rsRegistry st)
    \<and> windowEvaluationsTotal (rsRegistry st') = windowEvaluationsTotal (rsRegistry st)"
proof (cases "ds = [] \<or> clamp (compute_desired current ds) (fst bounds) (snd bounds) = current")
  case True
  then show ?thesis
    using assms by (auto simp: apply_decisions_def Let_def scale_labels_def cooldown_gauge_after_def split: if_splits)
next
  case False
  let ?n = "clamp (compute_desired current ds) (fst bounds) (snd bounds)"
  let ?d = "direction_of current ?n"
  let ?st1 = "record_metric (record_desired_scale (sName svc) ?n) st"
  obtain ok st2 where c: "can_scale env svc current ?d ?st1 = (ok, st2)" by (metis surj_pair)
  have g: "rsRegistry st2 = rsRegistry ?st1" using can_scale_registry [of env svc current ?d ?st1] c by simp
  let ?st3 = "record_metric (record_cooldown_active (sName svc) (direction_string ?d) (\<not> ok)) st2"
  have "apply_decisions rc env svc current now bounds ds st =
      (let st3 = ?st3 in if \<not> ok then (InCooldown ?d ?n, svc, st3) else execute_scale rc svc ?d ?n now st3)"
    using False c by (simp add: apply_decisions_def Let_def direction_of_def)
  then have eq: "(if \<not> ok then (InCooldown ?d ?n, svc, ?st3) else execute_scale rc svc ?d ?n now ?st3) = (result, svc', st')"
    by (simp only: assms Let_def)
  show ?thesis
  proof (cases ok)
    case False
    with eq have "result = InCooldown ?d ?n" "st' = ?st3" by auto
    with g False show ?thesis
      by (simp add: scale_labels_def cooldown_gauge_after_def record_cooldown_active_def)
  next
    case True
    with eq have x: "execute_scale rc svc ?d ?n now ?st3 = (result, svc', st')" by simp
    have d: "?d \<in> {ScaleUp, ScaleDown}" by (simp add: direction_of_def)
    note r = execute_scale_registry [OF x] and o = execute_scale_effect(2) [OF x]
    from o d show ?thesis
      unfolding r using True
      by (auto simp: g cooldown_gauge_after_def record_cooldown_active_def split: outcome.splits)
  qed
qed

lemma reconcile_registry:
  assumes "reconcile_service rc env svc current st = Some (result, svc', st')"
  shows "scaleEventsTotal (rsRegistry st') = foldl inc (scaleEventsTotal (rsRegistry st)) (scale_labels (sName svc) result)"
    "cooldown_gauge_after (sName svc) current result (cooldownActive (rsRegistry st)) (cooldownActive (rsRegistry st'))"
    "metricAge (rsRegistry st') (service, name) =
       (if service = sName svc \<and> name \<in> set (the (all_required (sPolicies svc)))
        then (case Latest (reconcile_snapshot env st) (MetricKey service name) of
                None \<Rightarrow> metricAge (rsRegistry st) (service, name)
              | Some x \<Rightarrow> Some (age_seconds (reconcile_now env st) x))
        else metricAge (rsRegistry st) (service, name))"
    "\<exists>ds ws. evaluate_policies (envEngine env) (sPolicies svc) current (reconcile_snapshot env st) (reconcile_now env st) = Some (ds, ws)
       \<and> (\<forall>k. counted (windowEvaluationsTotal (rsRegistry st') k) = counted (windowEvaluationsTotal (rsRegistry st) k)
            + length (filter (\<lambda>w. (weService w, weDirection w, weResult w) = k) ws))"
proof -
  obtain ds ws sin sout where
    e: "evaluate_policies (envEngine env) (sPolicies svc) current (reconcile_snapshot env st) (reconcile_now env st) = Some (ds, ws)"
    and a: "apply_decisions rc env svc current (reconcile_now env st) (reconcile_bounds env svc st) ds sin = (result, svc', sout)"
    and g: "rsRegistry sin = record_windows ws (record_ages (sName svc) (reconcile_snapshot env st) (reconcile_now env st)
       (the (all_required (sPolicies svc))) {} (record_current_scale (sName svc) current (rsRegistry st)))"
      "rsRegistry st' = record_reconcile_latency (sName svc)
       (time_sub (envClock env (rsReads sout)) (reconcile_now env st)) (rsRegistry sout)"
    using reconcile_service_cases [OF assms] by metis
  note r = apply_decisions_registry [OF a]
  show "scaleEventsTotal (rsRegistry st') = foldl inc (scaleEventsTotal (rsRegistry st)) (scale_labels (sName svc) result)"
    "cooldown_gauge_after (sName svc) current result (cooldownActive (rsRegistry st)) (cooldownActive (rsRegistry st'))"
    "metricAge (rsRegistry st') (service, name) =
       (if service = sName svc \<and> name \<in> set (the (all_required (sPolicies svc)))
        then (case Latest (reconcile_snapshot env st) (MetricKey service name) of
                None \<Rightarrow> metricAge (rsRegistry st) (service, name)
              | Some x \<Rightarrow> Some (age_seconds (reconcile_now env st) x))
        else metricAge (rsRegistry st) (service, name))"
    using r by (simp_all add: g record_ages_exact split: option.splits)
  show "\<exists>ds ws. evaluate_policies (envEngine env) (sPolicies svc) current (reconcile_snapshot env st) (reconcile_now env st) = Some (ds, ws)
       \<and> (\<forall>k. counted (windowEvaluationsTotal (rsRegistry st') k) = counted (windowEvaluationsTotal (rsRegistry st) k)
            + length (filter (\<lambda>w. (weService w, weDirection w, weResult w) = k) ws))"
    using e r by (simp add: g counted_windows)
qed

section \<open>Properties\<close>

lemma direction_string_eq [simp]: "direction_string d = direction_string d' \<longleftrightarrow> d = d'"
  by (cases d; cases d') simp_all

lemma counted_foldl_inc: "counted (foldl inc m ks k) = counted (m k) + length (filter (\<lambda>k'. k' = k) ks)"
  by (induction ks arbitrary: m) (auto simp: counted_inc)

lemma scale_labels_events:
  "scale_labels (sName svc) result = map (\<lambda>r. (srName r, direction_string (srDirection r))) (event_of env svc current st result)"
  by (cases result) (simp_all add: scale_labels_def event_of_def)

lemma poll_registry: "rsRegistry (poll_prometheus_metrics rc env svcs st) = rsRegistry st"
  unfolding poll_prometheus_metrics_def
  by (auto simp: read_clock_def poll_binding_def store_add_clocked_def
      intro!: foldl_invariant [where P = "\<lambda>s. rsRegistry s = rsRegistry st"] split: option.splits sum.splits)

text \<open>C19. The counter of changes of scale is truthful: in every interleaving of the loop with polls,
  OTLP requests and the platform, the exported counter of a service and a direction is the number
  of changes of that service in that direction, neither losing a change nor counting a failed or
  suppressed one.\<close>

theorem scale_counter_counts_events:
  assumes "sys_run rc env (svcs0, initial_state store a) es s"
  shows "counted (scaleEventsTotal (rsRegistry (snd s)) (name, direction_string d))
    = length (filter (\<lambda>r. srName r = name \<and> srDirection r = d) es)"
  using assms
proof (induction rule: sys_run.induct)
  case start
  then show ?case by (simp add: initial_state_def empty_registry_def counted_def)
next
  case (step es s e s')
  from step.hyps(2) step.IH show ?case
  proof (cases rule: sys_step.cases)
    case (reconcile i svcs current st result svc' st')
    have "scaleEventsTotal (rsRegistry st') = foldl inc (scaleEventsTotal (rsRegistry st))
        (map (\<lambda>r. (srName r, direction_string (srDirection r))) e)"
      using reconcile_registry(1) [OF reconcile(5)] reconcile(2) by (simp add: scale_labels_events [symmetric])
    with step.IH reconcile show ?thesis
      by (simp add: counted_foldl_inc filter_map comp_def)
  qed (use step.IH in \<open>simp_all add: poll_registry\<close>)
qed

theorem scale_counter_counts_events_witness:
  "\<exists>st. sys_run (example_rc False) busy_env ([busy_service], busy_state) [busy_event 101 2, busy_event 131 4]
      ([busy_service\<lparr>sPolicies := [Some (PWindow (since 131))]\<rparr>], st)
    \<and> counted (scaleEventsTotal (rsRegistry st) (''s'', ''up'')) = 2 \<and> counted (scaleEventsTotal (rsRegistry st) (''s'', ''down'')) = 0"
proof (rule busy_run)
  fix st1 st2
  assume r: "sys_run (example_rc False) busy_env ([busy_service], busy_state) [busy_event 101 2, busy_event 131 4]
      ([busy_service\<lparr>sPolicies := [Some (PWindow (since 131))]\<rparr>], st2)"
  note c = scale_counter_counts_events [OF r [unfolded busy_state_def], of "''s''"]
  from c [of ScaleUp] c [of ScaleDown] r show ?thesis by (auto simp: busy_event_def)
qed



end
