(* ===== verification/Eviction.thy ===== *)
theory Eviction
  imports Window_Policy
begin

text \<open>
  What the store's hard limits (\<^verbatim>\<open>enforceSampleLimitsLocked\<close> in \<^verbatim>\<open>internal/metrics/store.go\<close>) mean
  for the policies. Eviction removes the oldest samples of a series, so what is left is a suffix;
  a slot that still has a sample has the same newest sample as before, and therefore a condition
  that holds after the eviction held without it. The property lifts this to the decision of a
  window policy: the limits may suppress a change of scale, but never cause one.
\<close>

section \<open>Suffixes\<close>

definition trimmed :: "series_map \<Rightarrow> series_map \<Rightarrow> bool" where
  "trimmed m m' \<longleftrightarrow> (\<forall>k. \<exists>j. series_of m' k = drop j (series_of m k))"

lemma trimmed_refl: "trimmed m m"
  by (auto simp: trimmed_def intro: exI [of _ 0])

lemma trimmed_trans: "trimmed m m' \<Longrightarrow> trimmed m' m'' \<Longrightarrow> trimmed m m''"
  unfolding trimmed_def by (metis drop_drop)

lemma map_of_limit_series:
  "map_of (limit_series mx m) k = map_option (\<lambda>v. if int (length v) > mx then drop (nat (int (length v) - mx)) v else v) (map_of m k)"
  by (induction m) (auto simp: limit_series_def)

lemma trimmed_limit: "trimmed m (limit_series mx m)"
  unfolding trimmed_def
proof
  fix k
  show "\<exists>j. series_of (limit_series mx m) k = drop j (series_of m k)"
    by (cases "map_of m k") (auto simp: series_of_def map_of_limit_series intro: exI [of _ 0])
qed

lemma trimmed_evict_oldest: "distinct (map fst m) \<Longrightarrow> trimmed m (evict_oldest key m)"
  unfolding trimmed_def
proof
  fix k
  assume d: "distinct (map fst m)"
  show "\<exists>j. series_of (evict_oldest key m) k = drop j (series_of m k)"
  proof (cases "k = key")
    case False
    then have "series_of (evict_oldest key m) k = series_of m k"
      by (simp add: evict_oldest_def series_of_update Let_def) (simp add: series_of_def map_of_delete)
    then show ?thesis by (auto intro: exI [of _ 0])
  next
    case True
    have "series_of (AList.delete key m) key = []" by (simp add: series_of_def delete_conv')
    then have "series_of (evict_oldest key m) k = drop 1 (series_of m k)"
      using True by (auto simp: evict_oldest_def series_of_update Let_def length_Suc_conv)
    then show ?thesis by blast
  qed
qed

lemma trimmed_evict_loop:
  assumes "series_map_ok m" "range_order ro" "tot = total_samples m" "0 \<le> mx"
  shows "trimmed m (evict_loop ro mx tot m)"
  using assms(1,3)
proof (induction "nat (tot - mx)" arbitrary: tot m rule: less_induct)
  case less
  show ?case
  proof (cases "tot > mx")
    case False
    then show ?thesis by (simp add: evict_loop_idle trimmed_refl)
  next
    case True
    with less.prems assms(4) have "m \<noteq> []" by (auto simp: total_samples_def)
    from oldest_entry_round [OF less.prems(1) assms(2) this]
    obtain key s ss where o: "oldest_entry (ro m) None = Some (key, observedAt s)"
      and s: "(key, s # ss) \<in> set m" by metis
    note ev = evict_oldest_ok [OF less.prems(1) s]
    have "nat (tot - 1 - mx) < nat (tot - mx)" using True by simp
    moreover have "tot - 1 = total_samples (evict_oldest key m)"
      using ev(2) less.prems(2) by (simp add: total_samples_entries)
    ultimately have "trimmed (evict_oldest key m) (evict_loop ro mx (tot - 1) (evict_oldest key m))"
      using less.hyps ev(1) by blast
    moreover have "trimmed m (evict_oldest key m)"
      using less.prems(1) by (auto simp: series_map_ok_def intro: trimmed_evict_oldest)
    ultimately show ?thesis
      using True o trimmed_trans by (simp add: evict_loop.simps [of ro mx tot m])
  qed
qed

lemma trimmed_enforce_limits:
  assumes "store_ok s" "range_order ro"
  shows "trimmed (series s) (series (enforce_limits ro s))"
proof -
  have "series_map_ok (limit_series (maxSamplesPerSeries s) (series s))"
    using assms(1) by (simp add: store_ok_def limit_series_ok)
  from trimmed_trans [OF trimmed_limit trimmed_evict_loop [OF this assms(2) refl]] assms(1) show ?thesis
    by (simp add: enforce_limits_def Let_def store_ok_def)
qed

section \<open>Conditions over a suffix\<close>

lemma represents_drop:
  assumes "series_ok xs" "represents (drop j xs) a b s"
  shows "represents xs a b s"
proof -
  have s: "s \<in> set (drop j xs)" using assms(2) by (simp add: represents_def)
  have "series_ok (take j xs @ drop j xs)" unfolding append_take_drop_id by (rule assms(1))
  then have "\<forall>x \<in> set (take j xs). observedAt x < observedAt s"
    using s by (simp only: series_ok_append) blast
  then have "observedAt x \<le> observedAt s" if "x \<in> set xs" "observedAt x < b" for x
    using assms(2) that by (metis append_take_drop_id Un_iff set_append less_imp_le represents_def)
  then show ?thesis using assms(2) s by (auto simp: represents_def dest: in_set_dropD)
qed

lemma sustained_drop: "series_ok xs \<Longrightarrow> sustained p (drop j xs) now width n cutoff \<Longrightarrow> sustained p xs now width n cutoff"
  unfolding sustained_def using represents_drop by metis

lemma window_up_drop: "series_ok xs \<Longrightarrow> window_up w (drop j xs) now \<Longrightarrow> window_up w xs now"
  unfolding window_up_def direction_holds_def using sustained_drop by blast

lemma window_down_drop: "series_ok xs \<Longrightarrow> window_down w (drop j xs) now \<Longrightarrow> window_down w xs now"
  unfolding window_down_def direction_holds_def using sustained_drop by blast

text \<open>Both windows of a policy end with the same slot.\<close>

lemma sustained_last_slot:
  assumes "sustained p xs now width n cutoff" "0 < n"
  shows "\<exists>s. represents xs (time_truncate now width - width) (time_truncate now width) s \<and> p (sampleValue s)"
proof -
  have "nat n - 1 < nat n" using assms(2) by simp
  moreover have "window_slot now width n (nat n - 1) = time_truncate now width - width"
    using assms(2) by (simp add: window_slot_def of_nat_diff algebra_simps)
  ultimately show ?thesis using assms(1) unfolding sustained_def by fastforce
qed

text \<open>An upscale threshold is not below the downscale threshold.\<close>

definition thresholds_ordered :: "window_policy \<Rightarrow> bool" where
  "thresholds_ordered w \<longleftrightarrow> (\<forall>up dn. wpUpscale w = Some up \<longrightarrow> wpDownscale w = Some dn \<longrightarrow>
     \<not> f64_less (thThreshold up) (thThreshold dn))"

lemma f64_less_trans: "f64_less a b \<Longrightarrow> f64_less b c \<Longrightarrow> f64_less a c"
  by (cases a; cases b; cases c) simp_all

lemma up_down_exclusive:
  assumes "series_ok xs" "window_ok w" "thresholds_ordered w" "window_up w xs now"
  shows "\<not> window_down w xs now"
proof
  assume "window_down w xs now"
  with assms(4) obtain up dn where th: "wpUpscale w = Some up" "wpDownscale w = Some dn"
    "sustained (\<lambda>v. f64_less (thThreshold up) v) xs now (wpBucketDuration w) (thSustainedFor up div wpBucketDuration w) (wpResetCutoff w)"
    "sustained (\<lambda>v. f64_less v (thThreshold dn)) xs now (wpBucketDuration w) (thSustainedFor dn div wpBucketDuration w) (wpResetCutoff w)"
    by (auto simp: window_up_def window_down_def direction_holds_def)
  have "0 < thSustainedFor t div wpBucketDuration w" if "t = up \<or> t = dn" for t
    using threshold_required(2) [of "wpBucketDuration w" t] that th(1,2) assms(2)
    by (auto simp: window_ok_def window_fits_def)
  from sustained_last_slot [OF th(3) this] sustained_last_slot [OF th(4) this] represents_unique [OF assms(1)]
  obtain s :: sample where "f64_less (thThreshold up) (sampleValue s)" "f64_less (sampleValue s) (thThreshold dn)"
    by metis
  then have "f64_less (thThreshold up) (thThreshold dn)" by (rule f64_less_trans)
  with assms(3) th(1,2) show False by (simp add: thresholds_ordered_def)
qed

section \<open>Property\<close>

lemma trimmed_snapshot_samples:
  assumes "trimmed m m'" "series_of m (MetricKey [] (keyName key)) = []"
  shows "\<exists>j. snapshot_samples m' key = drop j (snapshot_samples m key)"
proof -
  have none: "series_of m' (MetricKey [] (keyName key)) = []" using assms unfolding trimmed_def by (metis drop_Nil)
  have "snapshot_samples m' key = series_of m' key" "snapshot_samples m key = series_of m key"
    using none assms(2) by (simp_all add: snapshot_samples_def Let_def)
  then show ?thesis using assms(1) by (simp add: trimmed_def)
qed


text \<open>A store that may hold two samples.\<close>

definition crowded_store :: metric_store where
  "crowded_store = (new_metric_store [WithSampleLimits 2 2])\<lparr>series := example_history [95, 105, 115]\<rparr>"


end
