(* ===== verification/Service_Bounds.thy ===== *)
theory Service_Bounds
  imports System
begin

text \<open>
  When the reconciler (\<^verbatim>\<open>reconcileService\<close> in \<^verbatim>\<open>internal/reconciler/reconciler.go\<close>) brings a service
  back within its bounds. The bounds are applied to the desired count, which is only computed when
  some policy decides; a window with a downscale threshold always does, whatever the metrics. The
  last section shows that equal decisions do not make the count oscillate.
\<close>

section \<open>A count outside the bounds\<close>

definition towards_bounds :: "int \<Rightarrow> int \<Rightarrow> scale_direction" where
  "towards_bounds current mn = (if current < mn then ScaleUp else ScaleDown)"

lemma clamp_outside:
  assumes "mn \<le> mx" "current < mn \<or> mx < current"
  shows "mn \<le> clamp n mn mx" "clamp n mn mx \<le> mx" "clamp n mn mx \<noteq> current"
    "direction_of current (clamp n mn mx) = towards_bounds current mn"
  using assms by (auto simp: clamp_def direction_of_def towards_bounds_def)

lemma apply_decisions_outside:
  assumes "apply_decisions rc env svc current now (mn, mx) ds st = (result, svc', st')"
    and "mn \<le> mx" "current < mn \<or> mx < current" "ds \<noteq> []"
    and "cooldown_passed env svc current (towards_bounds current mn) (rsState st (sName svc)) (rsReads st)"
    and "\<not> rcDryRun rc" "\<And>n a. \<exists>a'. Scale (rcAdapter rc) (sIdentifier svc) n a = (Inr (), a')"
  shows "result = Scaled (towards_bounds current mn) (clamp (compute_desired current ds) mn mx)"
  using assms(1)
proof (cases rule: apply_decisions_cases)
  case (scale f st2)
  let ?n = "clamp (compute_desired current ds) mn mx"
  obtain a' where "Scale (rcAdapter rc) (sIdentifier svc) ?n (rsPlatform st2) = (Inr (), a')" using assms(7) by blast
  with scale(3) assms(6) show ?thesis
    by (auto simp: execute_scale_def Let_def record_scale_event_eq clamp_outside(4) [OF assms(2,3)])
qed (use assms clamp_outside [OF assms(2,3)] in auto)

text \<open>A window with a downscale threshold decides on every snapshot.\<close>

lemma downscale_window_decides:
  assumes "series_map_ok m" "window_ok w" "wpDownscale w \<noteq> None"
  shows "\<exists>ev d. window_evaluate w current (metric_snapshot m) now = Some ev \<and> evDecision ev = Some d"
  using ms.window_decision [OF assms(1,2), of current now] assms(3) by (fastforce split: option.splits)

section \<open>Properties\<close>


text \<open>The run's service with a downscale threshold and no data at all.\<close>

definition idle_service :: "rat service" where
  "idle_service = busy_service\<lparr>sPolicies := [Some (PWindow
     (busy_window\<lparr>wpDownscale := Some \<lparr>thThreshold = Fin 5, thSustainedFor = 20, thStep = 1\<rparr>\<rparr>))]\<rparr>"

definition idle_state :: "memory_state run_state" where
  "idle_state = initial_state (new_metric_store []) [''svc'' \<mapsto> 12]"

lemma idle_ok:
  "store_ok (rsStore idle_state)" "policies_ok (sPolicies idle_service)" "policies_ok (sPolicies busy_service)"
  "active_bounds (envZones busy_env) idle_service t = (1, 9)" "active_bounds (envZones busy_env) busy_service t = (1, 9)"
  using new_metric_store_ok [of "[]"]
  by (simp_all add: idle_state_def initial_state_def idle_service_def busy_service_def busy_window_def policies_ok_def
      window_ok_def threshold_ok_def active_bounds_def)


text \<open>Without a decision the bounds are not applied: when every policy of a service fails or has no
  opinion, such as a window that only scales up and does not breach, the reconciliation changes
  nothing, however far the count is from the bounds and whatever the cooldown.\<close>

theorem bounds_ignored_without_decision:
  assumes "env_ok env" "store_ok (rsStore st)" "policies_ok (sPolicies svc)"
    and quiet: "\<And>p ev. Some p \<in> set (sPolicies svc) \<Longrightarrow>
      policy_evaluate (envEngine env) p current (reconcile_snapshot env st) (reconcile_now env st) = Some (Inr ev) \<Longrightarrow>
      evDecision ev = None"
  shows "\<exists>st'. reconcile_service rc env svc current st = Some (NoDecisions, svc, st')
    \<and> rsPlatform st' = rsPlatform st \<and> rsState st' = rsState st"
proof -
  obtain result svc' st' where r: "reconcile_service rc env svc current st = Some (result, svc', st')"
    using reconcile_service_total [OF assms(1-3)] by blast
  from r show ?thesis
  proof (cases rule: reconcile_service_cases)
    case (1 ds ws sin sout)
    have "ds = []"
    proof (rule ccontr)
      assume "ds \<noteq> []"
      then have "hd ds \<in> set ds" by simp
      from evaluate_policies_decision [OF 1(2) this] quiet show False by fastforce
    qed
    with 1(3) have "result = NoDecisions" "svc' = svc" "sout = sin" by (simp_all add: apply_decisions_def)
    with r 1(4,5,8,9) show ?thesis by simp
  qed
qed

theorem bounds_ignored_without_decision_witness:
  "\<exists>st'. reconcile_service (example_rc False) busy_env busy_service 0 idle_state = Some (NoDecisions, busy_service, st')
    \<and> fst (active_bounds (envZones busy_env) busy_service (envClock busy_env 0)) = 1"
proof -
  have s: "reconcile_snapshot busy_env idle_state = metric_snapshot []"
    by (simp add: reconcile_snapshot_def idle_state_def initial_state_def new_metric_store_def store_snapshot_def
        prune_series_def enforce_limits_def limit_series_def total_samples_def evict_loop_idle Let_def)
  have m: "series_map_ok []" by (simp add: series_map_ok_def)
  have w: "window_ok busy_window" "steps_fit busy_window 0"
    by (simp_all add: busy_window_def window_ok_def threshold_ok_def steps_fit_def)
  have "snapshot_samples [] k = []" for k by (simp add: snapshot_samples_def series_of_def)
  then have "\<not> window_up busy_window (snapshot_samples [] k) t" for k t
    by (auto simp: window_up_def direction_holds_def sustained_def represents_def busy_window_def intro!: exI [of _ 0])
  then have "window_evaluate busy_window 0 (metric_snapshot []) t = Some ev \<Longrightarrow> evDecision ev = None" for t ev
    using window_cases [OF m w, of t] by (auto simp: window_down_def busy_window_def)
  then have "\<exists>st'. reconcile_service (example_rc False) busy_env busy_service 0 idle_state = Some (NoDecisions, busy_service, st')
    \<and> rsPlatform st' = rsPlatform idle_state \<and> rsState st' = rsState idle_state"
    by (intro bounds_ignored_without_decision [OF busy_env_ok idle_ok(1,3)]) (auto simp: busy_service_def s)
  then show ?thesis by (auto simp: idle_ok(5))
qed

section \<open>Settling\<close>

lemma compute_desired_nonneg_eq:
  assumes "ds \<noteq> []" "0 \<le> current"
  shows "compute_desired current ds = max 0 (Max (desiredCount ` set ds))"
  using assms by (simp add: compute_desired_eq Let_def)

lemma settled_apply:
  assumes "apply_decisions rc env svc n now (mn, mx) ds st = (result, svc', st')"
    and "ds \<noteq> []" "0 \<le> mn" "mn \<le> mx" "0 \<le> current" "n = clamp (compute_desired current ds) mn mx"
  shows "result = Held"
proof -
  have "0 \<le> n" using assms(3,4,6) by (simp add: clamp_def)
  then have "clamp (compute_desired n ds) mn mx = n"
    using assms(6) by (simp add: compute_desired_nonneg_eq [OF assms(2)] assms(5))
  with assms(1,2) show ?thesis by (auto simp: apply_decisions_def Let_def)
qed

text \<open>C17. Equal decisions settle: when a reconciliation changed the count, a following one that reads the new
  count under the same bounds and whose policies decide the same counts, as target policies over
  steady metrics do, holds; so the reconciler neither oscillates nor approaches its goal in steps.\<close>

theorem same_decisions_settle:
  assumes "reconcile_service rc env svc current st = Some (result, svc', st')" "result = Scaled d n \<or> result = DryRunScale d n"
    and "evaluate_policies (envEngine env) (sPolicies svc) current (reconcile_snapshot env st) (reconcile_now env st) = Some (ds, ws)"
    and "active_bounds (envZones env) svc (envClock env (rsReads st)) = (mn, mx)" "0 \<le> mn" "mn \<le> mx" "0 \<le> current"
    and "reconcile_service rc env svc2 n st2 = Some (result2, svc3, st3)"
    and "evaluate_policies (envEngine env) (sPolicies svc2) n (reconcile_snapshot env st2) (reconcile_now env st2) = Some (ds2, ws2)"
    and "map desiredCount ds2 = map desiredCount ds"
    and "active_bounds (envZones env) svc2 (envClock env (rsReads st2)) = (mn, mx)"
  shows "result2 = Held"
proof -
  have b: "reconcile_bounds env svc st = (mn, mx)" "reconcile_bounds env svc2 st2 = (mn, mx)"
    using assms(4,11) by (simp_all add: reconcile_bounds_def reconcile_now_def)
  have n: "ds \<noteq> []" "n = clamp (compute_desired current ds) mn mx"
    using reconcile_scaled(1) [OF assms(1,2)] assms(3) b(1) by auto
  have "desiredCount ` set ds2 = desiredCount ` set ds" using assms(10) by (metis list.set_map)
  moreover have ds2: "ds2 \<noteq> []" using n(1) assms(10) by auto
  ultimately have n2: "n = clamp (compute_desired current ds2) mn mx"
    using n by (simp add: compute_desired_nonneg_eq assms(7))
  from assms(8) show ?thesis
  proof (cases rule: reconcile_service_cases)
    case (1 es vs sin sout)
    then have "es = ds2" using assms(9) by simp
    with settled_apply [OF 1(3) [unfolded b(2)] _ assms(5-7)] ds2 n2 show ?thesis by blast
  qed
qed

theorem same_decisions_settle_witness:
  "\<exists>st1 st2 result. reconcile_service (example_rc False) example_env example_service 2 (example_run 25) = Some (Scaled ScaleUp 3, example_service, st1)
    \<and> reconcile_service (example_rc False) example_env example_service 3 (example_run 25) = Some (result, example_service, st2) \<and> result = Held"
proof -
  obtain st1 where r1: "reconcile_service (example_rc False) example_env example_service 2 (example_run 25) = Some (Scaled ScaleUp 3, example_service, st1)"
    using example_reconcile [of False] by auto
  obtain result svc2 st2 where r2: "reconcile_service (example_rc False) example_env example_service 3 (example_run 25) = Some (result, svc2, st2)"
    using reconcile_service_total [OF example_env_ok example_run_ok example_service_ok] by blast
  have c: "\<lceil>5 / 2 :: rat\<rceil> = 3" by (rule ceiling_unique) auto
  have snap: "reconcile_snapshot example_env (example_run 25) = metric_snapshot (series (rsStore (example_run 25)))"
    by (simp add: reconcile_snapshot_def example_snapshot)
  have ev: "evaluate_policies (envEngine example_env) (sPolicies example_service) k
      (reconcile_snapshot example_env (example_run 25)) (reconcile_now example_env (example_run 25)) =
    Some ([\<lparr>desiredCount = 3, decisionReason = ReasonExpr ''ceil(q / 10)'' 3\<rparr>], [])" for k
    unfolding snap using example_latest [of 25]
    by (simp add: example_service_def example_env_def target_evaluate_def example_target_def example_engine_def
        Let_def c in_int64_def)
  have b: "active_bounds (envZones example_env) example_service t = (1, 5)" for t
    by (simp add: active_bounds_def example_service_def)
  have "result = Held"
    by (rule same_decisions_settle [OF r1 disjI1 [OF refl] ev b _ _ _ r2 ev _ b]) simp_all
  moreover have "svc2 = example_service"
    using reconcile_effect(1) [OF r2] calculation by (simp add: outcome_effect_def)
  ultimately show ?thesis using r1 r2 by blast
qed

end
