(* ===== verification/Health_Probes.thy ===== *)
theory Health_Probes
  imports Observability
begin

text \<open>
  Concurrent readiness probes (\<^verbatim>\<open>getCachedHealth\<close> in \<^verbatim>\<open>internal/server/server.go\<close>). The HTTP server
  runs each \<^verbatim>\<open>/readyz\<close> request in its own goroutine. A probe reads the cached verdict under the
  read lock; if it has expired, the probe releases the lock, calls the adapter and stores the
  verdict under the write lock, so several probes may check at once. The locks make the read
  and the store atomic; the call to the adapter is a step of its own. Readings of the clock
  never run backwards over the steps. A run records its steps.
\<close>

type_synonym verdict = "adapter_error option"

text \<open>Where a probe that missed the cache is: before the call of \<^verbatim>\<open>HealthCheck\<close> or after it. The time
  is its reading of the clock when it missed.\<close>

datatype probe_phase = Checking time | Checked time verdict

record 'a probes =
  prServer :: health_server
  prPlatform :: 'a
  prNow :: time
  prActive :: "nat \<rightharpoonup> probe_phase"

datatype probe_event =
    ProbeHit nat time verdict
  | ProbeMiss nat time
  | ProbeCheck nat verdict
  | ProbeStore nat time time verdict
  | PlatformChange

definition verdict_of :: "adapter_error + unit \<Rightarrow> verdict" where
  "verdict_of r = (case r of Inl e \<Rightarrow> Some e | Inr _ \<Rightarrow> None)"

text \<open>Lines 118 to 124, the read: a hit answers the cached verdict, a miss starts a check; line 130, the
  call; lines 132 to 137, the store, whose verdict is the answer. Anything may change the platform.\<close>

inductive probe_step :: "'a adapter_api \<Rightarrow> 'a probes \<Rightarrow> probe_event \<Rightarrow> 'a probes \<Rightarrow> bool"
  for api :: "'a adapter_api" where
  hit: "prActive s i = None \<Longrightarrow> prNow s \<le> t \<Longrightarrow> health_fresh (prServer s) t \<Longrightarrow>
     probe_step api s (ProbeHit i t (healthCacheErr (prServer s))) (s\<lparr>prNow := t\<rparr>)"
| miss: "prActive s i = None \<Longrightarrow> prNow s \<le> t \<Longrightarrow> \<not> health_fresh (prServer s) t \<Longrightarrow>
     probe_step api s (ProbeMiss i t) (s\<lparr>prNow := t, prActive := (prActive s)(i \<mapsto> Checking t)\<rparr>)"
| check: "prActive s i = Some (Checking b) \<Longrightarrow> HealthCheck api (prPlatform s) = (r, a) \<Longrightarrow>
     probe_step api s (ProbeCheck i (verdict_of r))
       (s\<lparr>prPlatform := a, prActive := (prActive s)(i \<mapsto> Checked b (verdict_of r))\<rparr>)"
| store: "prActive s i = Some (Checked b v) \<Longrightarrow> prNow s \<le> t \<Longrightarrow>
     probe_step api s (ProbeStore i b t v)
       (s\<lparr>prServer := (prServer s)\<lparr>healthCacheTime := t, healthCacheErr := v\<rparr>, prNow := t, prActive := (prActive s)(i := None)\<rparr>)"
| platform: "probe_step api s PlatformChange (s\<lparr>prPlatform := a\<rparr>)"

inductive probe_run :: "'a adapter_api \<Rightarrow> 'a probes \<Rightarrow> probe_event list \<Rightarrow> 'a probes \<Rightarrow> bool"
  for api :: "'a adapter_api" and s0 where
  start: "probe_run api s0 [] s0"
| step: "probe_run api s0 es s \<Longrightarrow> probe_step api s e s' \<Longrightarrow> probe_run api s0 (es @ [e]) s'"

inductive_cases probe_run_snocE: "probe_run api s0 (es @ [e]) s"
inductive_cases probe_hitE: "probe_step api s (ProbeHit i t v) s'"

text \<open>The server before its first probe; the clock is past the first ten seconds of year 1.\<close>

definition no_probes :: "time \<Rightarrow> 'a \<Rightarrow> 'a probes" where
  "no_probes now a = \<lparr>prServer = new_server, prPlatform = a, prNow = now, prActive = Map.empty\<rparr>"

section \<open>A probe that runs alone\<close>

text \<open>The steps of a single probe compose to the sequential \<open>get_cached_health\<close>.\<close>

lemma probe_alone:
  assumes "get_cached_health api now done_at (prServer s) (prPlatform s) = (v, srv, a)"
    and "prActive s i = None" "prNow s \<le> now" "now \<le> done_at"
  shows "\<exists>es s'. probe_run api s es s' \<and> prServer s' = srv \<and> prPlatform s' = a \<and> prActive s' = prActive s
    \<and> (last es = ProbeHit i now v \<or> last es = ProbeStore i now done_at v)"
proof (cases "health_fresh (prServer s) now")
  case True
  with assms(1) have "v = healthCacheErr (prServer s)" "srv = prServer s" "a = prPlatform s"
    by (auto simp: get_cached_health_def)
  with probe_run.step [OF probe_run.start probe_step.hit [OF assms(2,3) True], of api] show ?thesis
    by (intro exI [of _ "[] @ [ProbeHit i now v]"] exI [of _ "s\<lparr>prNow := now\<rparr>"]) simp
next
  case False
  obtain r a' where r: "HealthCheck api (prPlatform s) = (r, a')" by (metis surj_pair)
  let ?s1 = "s\<lparr>prNow := now, prActive := (prActive s)(i \<mapsto> Checking now)\<rparr>"
  let ?s2 = "?s1\<lparr>prPlatform := a', prActive := (prActive ?s1)(i \<mapsto> Checked now (verdict_of r))\<rparr>"
  have s1: "probe_step api s (ProbeMiss i now) ?s1" by (rule probe_step.miss [OF assms(2,3) False])
  have s2: "probe_step api ?s1 (ProbeCheck i (verdict_of r)) ?s2" by (rule probe_step.check) (simp_all add: r)
  have s3: "probe_step api ?s2 (ProbeStore i now done_at (verdict_of r)) (?s2\<lparr>prServer := (prServer ?s2)
      \<lparr>healthCacheTime := done_at, healthCacheErr := verdict_of r\<rparr>, prNow := done_at, prActive := (prActive ?s2)(i := None)\<rparr>)"
    by (rule probe_step.store) (simp_all add: assms(4))
  note run = probe_run.step [OF probe_run.step [OF probe_run.step [OF probe_run.start s1] s2] s3]
  have "v = verdict_of r \<and> srv = (prServer s)\<lparr>healthCacheTime := done_at, healthCacheErr := verdict_of r\<rparr> \<and> a = a'"
    using assms(1) False r by (auto simp: get_cached_health_def Let_def verdict_of_def)
  then show ?thesis
    by - (rule exI, rule exI, rule conjI, rule run, use assms(2) in \<open>simp add: fun_upd_idem\<close>)
qed

section \<open>Invariants\<close>

definition is_store :: "probe_event \<Rightarrow> bool" where
  "is_store e \<longleftrightarrow> (case e of ProbeStore _ _ _ _ \<Rightarrow> True | _ \<Rightarrow> False)"

text \<open>The last store of a run is the one of verdict \<open>v\<close> at time \<open>t\<close>, and it stores what its probe was told.\<close>

definition stored_last :: "probe_event list \<Rightarrow> time \<Rightarrow> verdict \<Rightarrow> bool" where
  "stored_last es t v \<longleftrightarrow> (\<exists>xs p b ys. es = xs @ ProbeStore p b t v # ys \<and> (\<forall>e \<in> set ys. \<not> is_store e) \<and> ProbeCheck p v \<in> set xs)"

lemma stored_last_quiet: "stored_last es t v \<Longrightarrow> \<not> is_store e \<Longrightarrow> stored_last (es @ [e]) t v"
proof -
  assume "stored_last es t v" and e: "\<not> is_store e"
  then obtain xs p b ys where "es = xs @ ProbeStore p b t v # ys" "\<forall>e \<in> set ys. \<not> is_store e" "ProbeCheck p v \<in> set xs"
    by (auto simp: stored_last_def)
  with e show ?thesis unfolding stored_last_def
    by (intro exI [of _ xs] exI [of _ p] exI [of _ b] exI [of _ "ys @ [e]"]) auto
qed

text \<open>The cache holds the verdict of the last store, the latest of all stores; a probe about to store has
  called the adapter.\<close>

definition cache_inv :: "probe_event list \<Rightarrow> 'a probes \<Rightarrow> bool" where
  "cache_inv es s \<longleftrightarrow> healthCacheTime (prServer s) \<le> prNow s
     \<and> (\<forall>p b t v. ProbeStore p b t v \<in> set es \<longrightarrow> t \<le> healthCacheTime (prServer s))
     \<and> (prServer s = new_server \<or> stored_last es (healthCacheTime (prServer s)) (healthCacheErr (prServer s)))
     \<and> (\<forall>i b v. prActive s i = Some (Checked b v) \<longrightarrow> ProbeCheck i v \<in> set es)"

lemma cache_inv_quiet:
  assumes "cache_inv es s" "\<not> is_store e" "prServer s' = prServer s" "prNow s \<le> prNow s'"
    and "\<forall>i b v. prActive s' i = Some (Checked b v) \<longrightarrow> ProbeCheck i v \<in> set (es @ [e])"
  shows "cache_inv (es @ [e]) s'"
proof -
  have "ProbeStore p b t v \<noteq> e" for p b t v using assms(2) by (auto simp: is_store_def)
  then show ?thesis
    using assms stored_last_quiet [OF _ assms(2)] unfolding cache_inv_def by auto
qed

lemma cache_inv_store:
  assumes "cache_inv es s" "prActive s i = Some (Checked b v)" "prNow s \<le> t"
  shows "cache_inv (es @ [ProbeStore i b t v]) (s\<lparr>prServer := (prServer s)\<lparr>healthCacheTime := t, healthCacheErr := v\<rparr>,
    prNow := t, prActive := (prActive s)(i := None)\<rparr>)"
proof -
  have "ProbeCheck i v \<in> set es" using assms(1,2) by (auto simp: cache_inv_def)
  then have "stored_last (es @ [ProbeStore i b t v]) t v"
    unfolding stored_last_def by (intro exI [of _ es] exI [of _ i] exI [of _ b] exI [of _ "[]"]) simp
  moreover have "t' \<le> t" if "ProbeStore p b' t' v' \<in> set es" for p b' t' v'
    using that assms(1,3) by (fastforce simp: cache_inv_def)
  ultimately show ?thesis using assms(1) by (auto simp: cache_inv_def)
qed

lemma probe_run_inv:
  assumes "probe_run api (no_probes now a) es s" "0 \<le> now"
  shows "cache_inv es s \<and> now \<le> prNow s"
  using assms(1)
proof (induction rule: probe_run.induct)
  case start
  then show ?case using assms(2) by (simp add: cache_inv_def no_probes_def new_server_def)
next
  case (step es s e s')
  then have inv: "cache_inv es s" by blast
  from step.hyps(2) show ?case
  proof (cases rule: probe_step.cases)
    case (store i b v t)
    with cache_inv_store [OF inv] step.IH show ?thesis by simp
  next
    case (check i b r a)
    have "cache_inv (es @ [e]) s'"
      by (rule cache_inv_quiet [OF inv]) (use inv check in \<open>auto simp: is_store_def cache_inv_def\<close>)
    with check step.IH show ?thesis by simp
  next
    case (hit i t)
    have "cache_inv (es @ [e]) s'"
      by (rule cache_inv_quiet [OF inv]) (use inv hit in \<open>auto simp: is_store_def cache_inv_def\<close>)
    with hit step.IH show ?thesis by simp
  next
    case (miss i t)
    have "cache_inv (es @ [e]) s'"
      by (rule cache_inv_quiet [OF inv]) (use inv miss in \<open>auto simp: is_store_def cache_inv_def\<close>)
    with miss step.IH show ?thesis by simp
  next
    case (platform a)
    have "cache_inv (es @ [e]) s'"
      by (rule cache_inv_quiet [OF inv]) (use inv platform in \<open>auto simp: is_store_def cache_inv_def\<close>)
    with platform step.IH show ?thesis by simp
  qed
qed

section \<open>Two probes that overlap\<close>

text \<open>A cluster whose status is the state of the platform.\<close>

definition status_ecs :: "string ecs_client" where
  "status_ecs = \<lparr>DescribeServices = (\<lambda>_ _ st. (Inr [], st)), UpdateService = (\<lambda>_ _ _ st. (Inr (), st)),
     DescribeClusters = (\<lambda>cs st. (Inr (map (\<lambda>c. \<lparr>ClusterStatus = Some st\<rparr>) cs), st))\<rparr>"

lemma status_health:
  "HealthCheck (ecs_adapter status_ecs ''c'') st = (if st \<noteq> ''ACTIVE'' then Inl (ClusterNotActive st) else Inr (), st)"
  by (simp add: ecs_adapter_def ecs_health_def status_ecs_def)

text \<open>Probe 1 is told that the cluster is active; the cluster fails; probe 2, which started with it, is told so
  and stores it first; then probe 1 stores its older verdict, and probe 3 is told that all is well.\<close>

definition overlap_events :: "time \<Rightarrow> probe_event list" where
  "overlap_events t = [ProbeMiss 1 t, ProbeMiss 2 t, ProbeCheck 1 None, PlatformChange,
     ProbeCheck 2 (Some (ClusterNotActive ''INACTIVE'')), ProbeStore 2 t (t + 1) (Some (ClusterNotActive ''INACTIVE'')),
     ProbeStore 1 t (t + 2) None]"

lemma overlap_run:
  assumes "10 * second \<le> t"
  obtains s where "probe_run (ecs_adapter status_ecs ''c'') (no_probes t ''ACTIVE'') (overlap_events t) s"
    "prServer s = \<lparr>healthCacheTime = t + 2, healthCacheErr = None\<rparr>" "prPlatform s = ''INACTIVE''"
    "prNow s = t + 2" "prActive s = Map.empty"
proof -
  let ?api = "ecs_adapter status_ecs ''c''" and ?e = "Some (ClusterNotActive ''INACTIVE'')"
  have stale: "\<not> health_fresh new_server t"
    using assms by (simp add: health_fresh_def new_server_def healthCacheTTL_def time_sub_def second_def)
  let ?st = "\<lambda>srv a n m. \<lparr>prServer = srv, prPlatform = a, prNow = n, prActive = m\<rparr>"
  have "probe_step ?api (no_probes t ''ACTIVE'') (ProbeMiss 1 t) (?st new_server ''ACTIVE'' t [1 \<mapsto> Checking t])"
    using probe_step.miss [of "no_probes t ''ACTIVE''" 1 t ?api] stale by (simp add: no_probes_def)
  note r1 = probe_run.step [OF probe_run.start this]
  have "probe_step ?api (?st new_server ''ACTIVE'' t [1 \<mapsto> Checking t]) (ProbeMiss 2 t)
      (?st new_server ''ACTIVE'' t [1 \<mapsto> Checking t, 2 \<mapsto> Checking t])"
    using probe_step.miss [of "?st new_server ''ACTIVE'' t [1 \<mapsto> Checking t]" 2 t ?api] stale by simp
  note r2 = probe_run.step [OF r1 this]
  have "probe_step ?api (?st new_server ''ACTIVE'' t [1 \<mapsto> Checking t, 2 \<mapsto> Checking t]) (ProbeCheck 1 None)
      (?st new_server ''ACTIVE'' t [1 \<mapsto> Checked t None, 2 \<mapsto> Checking t])"
    using probe_step.check [of "?st new_server ''ACTIVE'' t [1 \<mapsto> Checking t, 2 \<mapsto> Checking t]" 1 t ?api "Inr ()" "''ACTIVE''"]
    by (simp add: status_health verdict_of_def fun_upd_twist)
  note r3 = probe_run.step [OF r2 this]
  have "probe_step ?api (?st new_server ''ACTIVE'' t [1 \<mapsto> Checked t None, 2 \<mapsto> Checking t]) PlatformChange
      (?st new_server ''INACTIVE'' t [1 \<mapsto> Checked t None, 2 \<mapsto> Checking t])"
    using probe_step.platform [of ?api "?st new_server ''ACTIVE'' t [1 \<mapsto> Checked t None, 2 \<mapsto> Checking t]" "''INACTIVE''"] by simp
  note r4 = probe_run.step [OF r3 this]
  have "probe_step ?api (?st new_server ''INACTIVE'' t [1 \<mapsto> Checked t None, 2 \<mapsto> Checking t]) (ProbeCheck 2 ?e)
      (?st new_server ''INACTIVE'' t [1 \<mapsto> Checked t None, 2 \<mapsto> Checked t ?e])"
    using probe_step.check [of "?st new_server ''INACTIVE'' t [1 \<mapsto> Checked t None, 2 \<mapsto> Checking t]" 2 t ?api
      "Inl (ClusterNotActive ''INACTIVE'')" "''INACTIVE''"]
    by (simp add: status_health verdict_of_def)
  note r5 = probe_run.step [OF r4 this]
  have "probe_step ?api (?st new_server ''INACTIVE'' t [1 \<mapsto> Checked t None, 2 \<mapsto> Checked t ?e]) (ProbeStore 2 t (t + 1) ?e)
      (?st \<lparr>healthCacheTime = t + 1, healthCacheErr = ?e\<rparr> ''INACTIVE'' (t + 1) [1 \<mapsto> Checked t None])"
    using probe_step.store [of "?st new_server ''INACTIVE'' t [1 \<mapsto> Checked t None, 2 \<mapsto> Checked t ?e]" 2 t ?e "t + 1" ?api]
    by (simp add: new_server_def fun_upd_twist)
  note r6 = probe_run.step [OF r5 this]
  have "probe_step ?api (?st \<lparr>healthCacheTime = t + 1, healthCacheErr = ?e\<rparr> ''INACTIVE'' (t + 1) [1 \<mapsto> Checked t None])
      (ProbeStore 1 t (t + 2) None) (?st \<lparr>healthCacheTime = t + 2, healthCacheErr = None\<rparr> ''INACTIVE'' (t + 2) Map.empty)"
    using probe_step.store [of "?st \<lparr>healthCacheTime = t + 1, healthCacheErr = ?e\<rparr> ''INACTIVE'' (t + 1) [1 \<mapsto> Checked t None]" 1 t None "t + 2" ?api]
    by simp
  note r7 = probe_run.step [OF r6 this]
  have "probe_run ?api (no_probes t ''ACTIVE'') (overlap_events t)
      (?st \<lparr>healthCacheTime = t + 2, healthCacheErr = None\<rparr> ''INACTIVE'' (t + 2) Map.empty)"
    using r7 by (simp add: overlap_events_def)
  from that [OF this] show thesis by simp
qed

text \<open>An older verdict may overwrite a newer one: the run ends with a healthy verdict in the cache although the
  last check, which was stored before, found the cluster inactive; a probe is told so.\<close>

lemma older_verdict_overwrites:
  assumes "10 * second \<le> t"
  shows "\<exists>s s'. probe_run (ecs_adapter status_ecs ''c'') (no_probes t ''ACTIVE'') (overlap_events t) s
    \<and> prPlatform s = ''INACTIVE'' \<and> probe_step (ecs_adapter status_ecs ''c'') s (ProbeHit 3 (t + 3) None) s'"
proof (rule overlap_run [OF assms])
  fix s :: "string probes"
  assume s: "probe_run (ecs_adapter status_ecs ''c'') (no_probes t ''ACTIVE'') (overlap_events t) s"
    "prServer s = \<lparr>healthCacheTime = t + 2, healthCacheErr = None\<rparr>" "prPlatform s = ''INACTIVE''"
    "prNow s = t + 2" "prActive s = Map.empty"
  have "health_fresh (prServer s) (t + 3)"
    by (simp add: s health_fresh_def healthCacheTTL_def time_sub_def second_def)
  with probe_step.hit [of s 3 "t + 3" "ecs_adapter status_ecs ''c''"] s show ?thesis by auto
qed

section \<open>Properties\<close>



text \<open>C37. Answers are recent: a probe that answers from the cache answers the verdict of the last store, which
  a call of \<^verbatim>\<open>HealthCheck\<close> by the storing probe returned, and which was stored less than ten
  seconds earlier. So if every check is stored within five seconds of its start, as the timeout
  asks, each answer describes the platform at most fifteen seconds ago.\<close>

theorem cached_answers_recent:
  assumes "probe_run api (no_probes now a) (es @ [ProbeHit q u v]) s" "10 * second \<le> now"
  shows "\<exists>xs p b t ys. es = xs @ ProbeStore p b t v # ys \<and> (\<forall>e \<in> set ys. \<not> is_store e) \<and> ProbeCheck p v \<in> set xs
    \<and> t \<le> u \<and> u < t + 10 * second \<and> (t \<le> b + 5 * second \<longrightarrow> u < b + 15 * second)"
proof -
  from assms(1) obtain s1 where r: "probe_run api (no_probes now a) es s1" and h: "probe_step api s1 (ProbeHit q u v) s"
    by (auto elim: probe_run_snocE)
  from h have v: "v = healthCacheErr (prServer s1)" "health_fresh (prServer s1) u" "prNow s1 \<le> u"
    by (auto elim: probe_hitE)
  let ?t = "healthCacheTime (prServer s1)"
  have inv: "cache_inv es s1" "now \<le> prNow s1" using probe_run_inv [OF r] assms(2) by (auto simp: second_def)
  have lt: "u < ?t + 10 * second"
    using v(2) time_sub_le_iff [of "10 * second" u ?t] by (simp add: health_fresh_def healthCacheTTL_def second_def)
  have le: "?t \<le> u" using inv(1) v(3) by (simp add: cache_inv_def)
  have "prServer s1 \<noteq> new_server" using lt v(3) inv(2) assms(2) by (auto simp: new_server_def)
  with inv(1) have "stored_last es ?t v" by (auto simp: cache_inv_def v(1))
  then obtain xs p b ys where "es = xs @ ProbeStore p b ?t v # ys" "\<forall>e \<in> set ys. \<not> is_store e" "ProbeCheck p v \<in> set xs"
    by (auto simp: stored_last_def)
  with lt le show ?thesis
    by (intro exI [of _ xs] exI [of _ p] exI [of _ b] exI [of _ ?t] exI [of _ ys]) auto
qed

theorem cached_answers_recent_witness:
  "\<exists>s. probe_run (ecs_adapter status_ecs ''c'') (no_probes unix_epoch ''ACTIVE'') (overlap_events unix_epoch @ [ProbeHit 3 (unix_epoch + 3) None]) s
    \<and> (\<exists>xs p b t ys. overlap_events unix_epoch = xs @ ProbeStore p b t None # ys \<and> ProbeCheck p None \<in> set xs)"
proof -
  have t: "10 * second \<le> unix_epoch" by (simp add: time_units)
  from older_verdict_overwrites [OF t] obtain s s' where
    "probe_run (ecs_adapter status_ecs ''c'') (no_probes unix_epoch ''ACTIVE'') (overlap_events unix_epoch) s"
    "probe_step (ecs_adapter status_ecs ''c'') s (ProbeHit 3 (unix_epoch + 3) None) s'" by blast
  then have r: "probe_run (ecs_adapter status_ecs ''c'') (no_probes unix_epoch ''ACTIVE'')
      (overlap_events unix_epoch @ [ProbeHit 3 (unix_epoch + 3) None]) s'"
    by (rule probe_run.step)
  from cached_answers_recent [OF r t] r show ?thesis by blast
qed

end
