(* ===== verification/Reason_Text.thy ===== *)
theory Reason_Text
  imports Reconciler
begin

text \<open>
  The text of a decision's reason, as the log lines of the reconciler give it
  (\<^verbatim>\<open>formatReasons\<close> in \<^verbatim>\<open>internal/reconciler/reconciler.go\<close>, and the calls of \<^verbatim>\<open>fmt.Sprintf\<close> in
  \<^verbatim>\<open>internal/policy\<close>). Of \<^verbatim>\<open>fmt\<close> the verbs these calls use are modelled: \<open>%d\<close>, \<open>%s\<close> of a string, \<open>%s\<close> of
  a duration, which is \<^verbatim>\<open>Duration.String\<close>, and \<open>%.2f\<close>, which rounds the exact value to the nearest
  hundredth, ties to even. Strings are UTF-8 bytes.
\<close>

section \<open>Verbs\<close>

text \<open>The last \<open>k\<close> decimal digits of \<open>n\<close>.\<close>

fun fixed_digits :: "nat \<Rightarrow> nat \<Rightarrow> string" where
  "fixed_digits 0 n = []"
| "fixed_digits (Suc k) n = fixed_digits k (n div 10) @ [digit_char (n mod 10)]"

definition round_half_even :: "rat \<Rightarrow> int" where
  "round_half_even r =
     (let f = \<lfloor>r\<rfloor>; d = r - of_int f in
      if d < 1 / 2 then f else if d > 1 / 2 then f + 1 else if even f then f else f + 1)"

fun format_fixed2 :: "f64 \<Rightarrow> string" where
  "format_fixed2 NaN = ''NaN''"
| "format_fixed2 PInf = ''+Inf''"
| "format_fixed2 NInf = ''-Inf''"
| "format_fixed2 (Fin q) =
     (let n = nat (round_half_even (\<bar>q\<bar> * 100)) in
      (if q < 0 then ''-'' else []) @ show_nat (n div 100) @ ''.'' @ fixed_digits 2 (n mod 100))"

text \<open>A fraction of \<open>k\<close> digits without its trailing zeros, and without the point if none is left.\<close>

definition fraction_text :: "nat \<Rightarrow> nat \<Rightarrow> string" where
  "fraction_text k n =
     (let ds = rev (dropWhile (\<lambda>c. c = CHR ''0'') (rev (fixed_digits k n))) in if ds = [] then [] else CHR ''.'' # ds)"

definition seconds_text :: "nat \<Rightarrow> string" where
  "seconds_text u =
     (let s = u div 1000000000; m = s div 60; sec = show_nat (s mod 60) @ fraction_text 9 (u mod 1000000000) @ ''s'' in
      if m = 0 then sec
      else if m div 60 = 0 then show_nat m @ ''m'' @ sec
      else show_nat (m div 60) @ ''h'' @ show_nat (m mod 60) @ ''m'' @ sec)"

definition duration_string :: "duration \<Rightarrow> string" where
  "duration_string d =
     (let u = nat \<bar>d\<bar> in
      (if d < 0 then ''-'' else [])
      @ (if u = 0 then ''0s''
         else if u < 1000 then show_nat u @ ''ns''
         else if u < 1000000 then show_nat (u div 1000) @ fraction_text 3 (u mod 1000) @ [CHR 0xC2, CHR 0xB5, CHR ''s'']
         else if u < 1000000000 then show_nat (u div 1000000) @ fraction_text 6 (u mod 1000000) @ ''ms''
         else seconds_text u))"

section \<open>Reasons\<close>

fun reason_text :: "reason \<Rightarrow> string" where
  "reason_text (ReasonText s) = s"
| "reason_text (ReasonNotBreached metric direction) =
     metric @ '' '' @ direction @ '' threshold not breached in every completed bucket''"
| "reason_text (ReasonBreach metric operator threshold required width) =
     metric @ '' '' @ operator @ '' '' @ format_fixed2 threshold @ '' in '' @ show_int required
     @ '' consecutive complete '' @ duration_string width @ '' buckets''"
| "reason_text (ReasonExpr expression desired) = ''expr('' @ expression @ '') = '' @ show_int desired"

text \<open>The slice is allocated at its length and filled by index.\<close>

definition format_reasons :: "scale_decision list \<Rightarrow> string list" where
  "format_reasons decisions =
     foldl (\<lambda>reasons (i, d). reasons[i := reason_text (decisionReason d)])
       (replicate (length decisions) []) (zip [0..<length decisions] decisions)"

section \<open>What the texts say\<close>

lemma fill_by_index:
  "length xs = length ys \<Longrightarrow> foldl (\<lambda>r (i, d). r[i := f d]) (pre @ xs) (zip [length pre..<length pre + length ys] ys) = pre @ map f ys"
proof (induction ys arbitrary: pre xs)
  case (Cons y ys)
  then obtain x xs' where xs: "xs = x # xs'" "length xs' = length ys" by (cases xs) auto
  have "[length pre..<length pre + length (y # ys)] = length pre # [Suc (length pre)..<Suc (length pre) + length ys]"
    by (simp add: upt_conv_Cons del: upt_Suc)
  with Cons.IH [OF xs(2), of "pre @ [f y]"] xs show ?case by simp
qed simp

lemma format_reasons_eq: "format_reasons ds = map (\<lambda>d. reason_text (decisionReason d)) ds"
  using fill_by_index [of "replicate (length ds) []" ds "\<lambda>d. reason_text (decisionReason d)" "[]"]
  by (simp add: format_reasons_def)

lemma round_half_even_near: "\<bar>of_int (round_half_even r) - r\<bar> \<le> 1 / 2"
proof -
  have "of_int \<lfloor>r\<rfloor> \<le> r" "r < of_int \<lfloor>r\<rfloor> + 1" by linarith+
  then show ?thesis by (auto simp: round_half_even_def Let_def abs_le_iff)
qed

text \<open>The value a threshold is shown with is within half a hundredth of it.\<close>

lemma fixed2_near: "\<bar>of_int (round_half_even (q * 100)) / 100 - q\<bar> \<le> 1 / 200"
  using round_half_even_near [of "q * 100"] unfolding abs_le_iff by linarith

lemma fixed_digits_numeral [simp]:
  "fixed_digits (numeral k) n = fixed_digits (pred_numeral k) (n div 10) @ [digit_char (n mod 10)]"
  by (subst numeral_eq_Suc) (rule fixed_digits.simps)

lemmas text_defs = duration_string_def seconds_text_def fraction_text_def show_nat.simps show_int_def digit_char_def
  char_of_def Let_def time_units

lemma duration_examples:
  "duration_string (2 * minute) = ''2m0s''" "duration_string (10 * second) = ''10s''"
  "duration_string 1500000 = ''1.5ms''" "duration_string (- second) = ''-1s''"
  by (simp_all add: text_defs bit_0 bit_Suc)

lemma reason_examples:
  "reason_text (ReasonBreach ''q'' ''>'' (Fin (201 / 2)) 6 (10 * second)) = ''q > 100.50 in 6 consecutive complete 10s buckets''"
  "reason_text (ReasonExpr ''ceil(q / 10)'' 3) = ''expr(ceil(q / 10)) = 3''"
  by (simp_all add: text_defs round_half_even_def bit_0 bit_Suc)

lemma fixed2_examples: "format_fixed2 (Fin (- 1 / 1000)) = ''-0.00''" "format_fixed2 (Fin (1 / 8)) = ''0.12''"
  by code_simp+

end
