(* ===== verification/Spec2Isabelle.thy ===== *)
theory Spec2Isabelle
  imports Lifecycle Platform_Loop End_To_End Test_Clock Exported_Metrics Eviction Service_Bounds Health_Probes Reason_Text
begin

text \<open>
  Verification of ninjascale, an autoscaler that sets the instance counts of services from
  metrics. This theory imports the whole development.

  The program. \<^verbatim>\<open>cmd/ninjascale/main.go\<close> loads a configuration, builds a metric store, Prometheus
  sources, a platform adapter, the services with their policies, an OTLP receiver and a health
  server, and runs the reconciler. Metrics enter the store in two ways: the receiver routes OTLP
  data points to service-local keys, and the reconciler polls Prometheus at every tick. A tick then
  reads the current counts of all services through the adapter and reconciles each service: it
  takes a snapshot of the store, asks each policy for a decision, combines the decisions, clamps
  the result to the bounds of the service or of its schedule, checks the cooldown and scales
  through the adapter. A change of scale is recorded and resets the policies of the service, so
  that a window starts to collect anew.

  Theories and sources.
  \<^item> \<^theory_text>\<open>Go_Prelude\<close>, \<^theory_text>\<open>Go_Time\<close>: what the code uses of the language and its library: 64- and 32-bit
    integers with wrap-around, division, the comparison and conversion of doubles, strings,
    decimal printing, binary search, time, truncation and saturating subtraction of times, the
    weekday and the clock of a location.
  \<^item> \<^theory_text>\<open>Sample_Series\<close>, \<^theory_text>\<open>Metric_Store\<close>, \<^theory_text>\<open>Metric_Snapshot\<close>: \<^verbatim>\<open>internal/metrics/store.go\<close>. The store is
    the record \<open>metric_store\<close> (\<^verbatim>\<open>MetricStore\<close>), its map an association list; \<open>store_add\<close>, \<open>store_set\<close>,
    \<open>store_get\<close>, \<open>store_snapshot\<close>, \<open>as_map\<close> are \<^verbatim>\<open>Add\<close>, \<^verbatim>\<open>Set\<close>, \<^verbatim>\<open>Get\<close>, \<^verbatim>\<open>Snapshot\<close>, \<^verbatim>\<open>AsMap\<close>; \<open>complete_buckets\<close> is
    \<^verbatim>\<open>CompleteBuckets\<close>. The order in which Go visits a map is an argument.
  \<^item> \<^theory_text>\<open>Window_Policy\<close>, \<^theory_text>\<open>Target_Policy\<close>: \<^verbatim>\<open>internal/policy\<close>. The interface \<^verbatim>\<open>Policy\<close> is the datatype \<open>policy\<close>.
  \<^item> \<^theory_text>\<open>Schedule\<close>: \<^verbatim>\<open>internal/schedule/schedule.go\<close>.
  \<^item> \<^theory_text>\<open>Config\<close>, \<^theory_text>\<open>Config_Build\<close>, \<^theory_text>\<open>Config_Load\<close>: \<^verbatim>\<open>internal/config/config.go\<close>: data, defaults and validation;
    \<^verbatim>\<open>BuildServices\<close> and \<^verbatim>\<open>MetricRetention\<close>; \<^verbatim>\<open>Parse\<close> and the loaders with base64.
  \<^item> \<^theory_text>\<open>Adapter\<close>: \<^verbatim>\<open>internal/adapter\<close>. An adapter is a record of operations over the platform's state.
  \<^item> \<^theory_text>\<open>Otlp_Receiver\<close>, \<^theory_text>\<open>Prometheus_Source\<close>: \<^verbatim>\<open>internal/metrics/otlp.go\<close> and \<^verbatim>\<open>prometheus.go\<close>.
  \<^item> \<^theory_text>\<open>Observability\<close>: \<^verbatim>\<open>internal/server/server.go\<close>: the exported metrics, the cached health check, the
    probes and the routes. \<^theory_text>\<open>Health_Probes\<close>: \<^verbatim>\<open>getCachedHealth\<close> under concurrent requests, as a step
    relation whose steps are the locked sections and the call to the adapter.
  \<^item> \<^theory_text>\<open>Reconciler\<close>: \<^verbatim>\<open>internal/reconciler/reconciler.go\<close>, from the arithmetic of a decision to the loop.
    \<open>run_state\<close> holds all that changes; a panic is \<open>None\<close>; the log line that ends the
    reconciliation of a service is its \<open>outcome\<close>. \<^theory_text>\<open>Reason_Text\<close>: the reasons as log lines show them.
  \<^item> \<^theory_text>\<open>System\<close>: the concurrent system as a step relation. The mutex of the store makes its operations
    atomic; reconciliations of a service, polls, OTLP requests, single additions and changes of
    the platform are the steps that interleave; every sequence of ticks is a run of it.
  \<^item> \<^theory_text>\<open>Metric_Flow\<close>: receiver, store and snapshot together: how a data point reaches the policies.
    \<^theory_text>\<open>End_To_End\<close>: from OTLP requests to a call of the platform.
  \<^item> \<^theory_text>\<open>Platform_Loop\<close>: a tick over an adapter that keeps its contract.
  \<^item> \<^theory_text>\<open>Retention\<close>: how the computed retention fits the configured windows.
  \<^item> \<^theory_text>\<open>Eviction\<close>: what the limits of the store mean for the policies. \<^theory_text>\<open>Service_Bounds\<close>: when the bounds
    of a service are enforced, and that equal decisions settle. \<^theory_text>\<open>Exported_Metrics\<close>: what the
    exported metrics say of a run.
  \<^item> \<^theory_text>\<open>Startup\<close>: \<^verbatim>\<open>main\<close> and \<^verbatim>\<open>run\<close>: from the configuration file to the running program.
  \<^item> \<^theory_text>\<open>Lifecycle\<close>: the process from its start to its exit: \<^verbatim>\<open>Start\<close> and \<^verbatim>\<open>Stop\<close> of the receiver and the
    server, the signal handler, the \<^verbatim>\<open>select\<close> loop of \<^verbatim>\<open>Reconciler.Run\<close>, the deferred calls, the exit
    status. Every run of the process is a run of the system.
  \<^item> \<^theory_text>\<open>Test_Clock\<close>: the injected clocks and \<^verbatim>\<open>internal/testutil\<close>.

  Interfaces. \<open>event_series\<close> is what the store asks of one series (interpreted on the sample lists),
  \<open>window_source\<close> what a window policy asks of a snapshot (interpreted on \<open>metric_snapshot\<close>),
  \<open>policy_contract\<close> what the reconciler asks of a policy (interpreted on \<open>policy\<close>) and \<open>count_adapter\<close>
  what it asks of an adapter (interpreted on the in-memory adapter, and shown for the ECS adapter
  over every client that does what its documentation says).

  What is shown.
  \<^item> Safety of scaling: changes stay within the active bounds, respect the cooldown, rest on windows
    that lie completely after the last change of the service, are therefore at least a window apart,
    never happen in a dry run, and an outcome tells exactly what was changed.
  \<^item> Progress: a usable data point is what the policies read next, as long as the store has room; a
    sustained breach below the upper bound and outside the cooldown does scale up, also from the
    requests that push it; a program that starts runs
    without a panic for every number of ticks; after the configuration has loaded, only the
    outside world can stop it from starting. A count outside the bounds is brought back when a window
    with a downscale threshold decides, with or without data; equal decisions do not oscillate.
  \<^item> The process: only a signal ends a started program, every exit stops what was started, and the
    readiness probes neither overload the platform nor answer with an old verdict, however they
    overlap. The counter of changes of scale is exact; the cooldown gauge is not what its
    description says.
  \<^item> The store: an invariant under every interleaving, hard limits, eviction of the oldest samples
    first, which can suppress a change of scale but never cause one, a refinement of finite maps from
    instants to values, no loss of the latest sample.
  \<^item> Windows: a window is complete exactly when every slot has a sample, its status is a total
    classification, the policy scales exactly when all slots breach and fails closed otherwise,
    and the configured retention never hides data from it.
  \<^item> Configuration: validation accepts exactly the well-formed configurations, these build, their
    OTLP bindings become exactly the routes of the receiver and their Prometheus bindings are
    connected.
  \<^item> The platform: the ECS adapter reads exactly the requested counts in requests of at most ten
    services, and a tick changes the cluster's counts by its outcomes and in no other way.

  Bounds and fuel. No definition has fuel: the eviction loop, the batch loop of the ECS adapter and
  the search terminate by measures. The reconciler's endless loop is \<open>run_loop\<close>, which runs one tick
  and then \<open>n\<close> more; the theorems hold for every \<open>n\<close>. Integers of the code are mathematical
  integers with \<open>wrap64\<close> and \<open>wrap32\<close> written where an operation may leave the range; doubles are
  exact rationals with infinities and not-a-number, since the code only compares, converts and
  rounds them; times are nanoseconds since the zero time, which is 0.

  Parameters. The expression engine (\<open>expr_engine\<close>), the yaml parser, the AWS client (\<open>ecs_client\<close>), the
  Prometheus client (\<open>prom_api\<close>), the time zone database, the gzip and protobuf decoders, the printing of
  doubles, the environment, files and sockets are parameters; what a theorem needs of them is a
  hypothesis of it. The clock is a sequence of readings that never decreases and starts after the
  zero time (\<open>env_ok\<close>).

  Not modelled. What the gRPC and HTTP libraries do between \<^verbatim>\<open>Serve\<close> and \<^verbatim>\<open>Shutdown\<close>: the model has the
  calls, their order and the error of the one listen that \<^verbatim>\<open>Start\<close> waits for; an error in a serving
  goroutine is only logged by the code and changes nothing. How long a graceful stop waits for open
  requests, and the effect of a cancelled context or an expired timeout on a call to the platform,
  belong to those libraries and to the platform. Of the log lines the model has the outcome that
  selects them and the reasons they show. The buckets of the latency histogram are left to the
  Prometheus client library, the parsing of the command line to \<^verbatim>\<open>flag\<close>.
\<close>

end
